theory Spec2Isabelle
  imports Main "HOL-Library.Word" "HOL-Library.Multiset"
begin

section \<open>Data model\<close>

text \<open>
  Windows scalar types. \<open>DWORD\<close> is a 32-bit unsigned integer, \<open>wchar_t\<close> a 16-bit code
  unit. \<open>std::size_t\<close> values (\<open>Bytes\<close>, vector sizes, \<open>topN\<close>) are natural numbers: the
  program only compares them, takes their minimum and doubles a vector size, and the one
  narrowing conversion (\<open>static_cast<DWORD>\<close> in \<open>enumerateProcessIds\<close>) is written out.
  A \<open>HANDLE\<close> is an opaque pointer; \<open>nullptr\<close> is address 0.
\<close>

type_synonym dword = "32 word"
type_synonym wchar_t = "16 word"
type_synonym wstring = "wchar_t list"
type_synonym Bytes = nat
type_synonym HANDLE = nat

definition nullptr :: HANDLE where
  "nullptr = 0"

text \<open>A wide string literal \<open>L"..."\<close>: every character widened to one code unit.\<close>

definition L :: "string \<Rightarrow> wstring" where
  "L s = map (\<lambda>c. of_nat (of_char c)) s"

text \<open>\<open>struct ProcessInfo\<close> (ProcessInfo.hpp).\<close>

record ProcessInfo =
  pid :: dword
  name :: wstring
  workingSetBytes :: Bytes
  privateBytes :: Bytes

section \<open>Decimal output of unsigned integers\<close>

text \<open>
  \<open>std::to_string\<close> of an unsigned value, and \<open>operator<<\<close> of an unsigned value on a
  stream in the default locale: the decimal digits, most significant first.
\<close>

definition digit :: "nat \<Rightarrow> char" where
  "digit d = ''0123456789'' ! d"

fun to_string :: "nat \<Rightarrow> string" where
  "to_string n =
     (if n < 10 then [digit n] else to_string (n div 10) @ [digit (n mod 10)])"

section \<open>Report printing (ProcessMemorySniffer.cpp)\<close>

definition MAX_NAME_LEN :: nat where
  "MAX_NAME_LEN = 28"

text \<open>
  \<open>std::left << std::setw(w) << s\<close>: the text followed by fill characters (spaces) up to
  width \<open>w\<close>; a longer text is written whole.
\<close>

definition setw_left :: "nat \<Rightarrow> wstring \<Rightarrow> wstring" where
  "setw_left w s = s @ replicate (w - length s) (of_nat (of_char CHR '' ''))"

text \<open>
  Lines 63-68 of \<open>printTopByWorkingSet\<close>: the local \<open>displayName\<close> of one row.
  \<open>substr(0, MAX_NAME_LEN - 1)\<close> keeps the first 27 code units.
\<close>

definition displayName :: "wstring \<Rightarrow> wstring" where
  "displayName nm =
     (if length nm > MAX_NAME_LEN then take (MAX_NAME_LEN - 1) nm @ L ''...'' else nm)"

text \<open>
  One row of the table (lines 58-75). The two sizes are converted to \<open>double\<close>, divided by
  \<open>1024.0 * 1024.0\<close> and written in fixed notation with precision 2; that floating-point
  formatting is the parameter \<open>fixed2\<close>, which maps a byte count to the text written.
\<close>

definition printRow :: "(Bytes \<Rightarrow> wstring) \<Rightarrow> ProcessInfo \<Rightarrow> wstring" where
  "printRow fixed2 p =
     setw_left 8 (L (to_string (unat (pid p))))
     @ setw_left 30 (displayName (name p))
     @ setw_left 16 (fixed2 (workingSetBytes p))
     @ setw_left 16 (fixed2 (privateBytes p))
     @ L ''\<newline>''"

text \<open>
  \<open>std::sort(first, last, cmp)\<close> is library code. What the standard fixes is the
  postcondition: the range holds the same elements as before, and no element comes before
  one that \<open>cmp\<close> puts ahead of it. The order of elements that \<open>cmp\<close> does not separate is
  the library's choice.
\<close>

definition sorted_by :: "('a \<Rightarrow> 'a \<Rightarrow> bool) \<Rightarrow> 'a list \<Rightarrow> 'a list \<Rightarrow> bool" where
  "sorted_by cmp xs ys \<longleftrightarrow> mset ys = mset xs \<and> sorted_wrt (\<lambda>a b. \<not> cmp b a) ys"

text \<open>One library that meets the postcondition: insertion sort.\<close>

fun sort_insert :: "('a \<Rightarrow> 'a \<Rightarrow> bool) \<Rightarrow> 'a \<Rightarrow> 'a list \<Rightarrow> 'a list" where
  "sort_insert cmp x [] = [x]"
| "sort_insert cmp x (y # ys) =
     (if cmp y x then y # sort_insert cmp x ys else x # y # ys)"

definition insertion_sort :: "('a \<Rightarrow> 'a \<Rightarrow> bool) \<Rightarrow> 'a list \<Rightarrow> 'a list" where
  "insertion_sort cmp xs = foldr (sort_insert cmp) xs []"

text \<open>
  Another one, which leaves elements that \<open>cmp\<close> does not separate in the opposite order:
  insertion sort applied to the reversed range.
\<close>

definition reversing_sort :: "('a \<Rightarrow> 'a \<Rightarrow> bool) \<Rightarrow> 'a list \<Rightarrow> 'a list" where
  "reversing_sort cmp xs = insertion_sort cmp (rev xs)"

text \<open>
  The library in use is the parameter \<open>impl\<close>. Its result is taken whenever it meets the
  postcondition, so every conforming library is covered, each with its own order of ties;
  a result that does not meet it is replaced by that of insertion sort.
\<close>

definition std_sort ::
  "(('a \<Rightarrow> 'a \<Rightarrow> bool) \<Rightarrow> 'a list \<Rightarrow> 'a list) \<Rightarrow> ('a \<Rightarrow> 'a \<Rightarrow> bool) \<Rightarrow> 'a list \<Rightarrow> 'a list" where
  "std_sort impl cmp xs =
     (if sorted_by cmp xs (impl cmp xs) then impl cmp xs else insertion_sort cmp xs)"

text \<open>The comparison lambda of lines 38-41.\<close>

definition byWorkingSetDesc :: "ProcessInfo \<Rightarrow> ProcessInfo \<Rightarrow> bool" where
  "byWorkingSetDesc a b \<longleftrightarrow> workingSetBytes a > workingSetBytes b"

text \<open>
  The variables of \<open>printTopByWorkingSet\<close>: the caller's vector \<open>processes\<close> (passed by
  const reference), the local copy \<open>sorted\<close> (field \<open>sorted_v\<close>), the by-value
  parameter \<open>topN\<close> (reassigned at line 43) and the text written to \<open>std::wcout\<close>.
\<close>

record report_state =
  processes :: "ProcessInfo list"
  sorted_v :: "ProcessInfo list"
  topN :: nat
  wcout :: wstring

definition put :: "wstring \<Rightarrow> report_state \<Rightarrow> report_state" where
  "put s st = st\<lparr>wcout := wcout st @ s\<rparr>"

definition banner :: "nat \<Rightarrow> wstring" where
  "banner n =
     L ''Top '' @ L (to_string n) @ L '' processes by working set (physical ram):\<newline>\<newline>''"

definition header :: wstring where
  "header =
     setw_left 8 (L ''PID'') @ setw_left 30 (L ''Process'')
     @ setw_left 16 (L ''WorkingSet (MB)'') @ setw_left 16 (L ''Private (MB)'')
     @ L ''\<newline>''"

text \<open>The loop of lines 56-76: \<open>for (i = 0; i < topN; i++)\<close> reading \<open>sorted[i]\<close>.\<close>

function print_rows :: "(Bytes \<Rightarrow> wstring) \<Rightarrow> nat \<Rightarrow> report_state \<Rightarrow> report_state" where
  "print_rows fixed2 i st =
     (if i < topN st
      then print_rows fixed2 (Suc i) (put (printRow fixed2 (sorted_v st ! i)) st)
      else st)"
  by pat_completeness auto
termination
  by (relation "measure (\<lambda>(fixed2, i, st). topN st - i)") (auto simp: put_def)

type_synonym sort_library =
  "(ProcessInfo \<Rightarrow> ProcessInfo \<Rightarrow> bool) \<Rightarrow> ProcessInfo list \<Rightarrow> ProcessInfo list"

definition printTopByWorkingSet ::
  "sort_library \<Rightarrow> (Bytes \<Rightarrow> wstring) \<Rightarrow> ProcessInfo list \<Rightarrow> nat \<Rightarrow> wstring
     \<Rightarrow> report_state" where
  "printTopByWorkingSet impl fixed2 procs n out =
     (let st = \<lparr>processes = procs, sorted_v = [], topN = n, wcout = out\<rparr> in
      if processes st = [] then put (L ''No processes available.\<newline>'') st
      else
        let st = st\<lparr>sorted_v := processes st\<rparr>;
            st = st\<lparr>sorted_v := std_sort impl byWorkingSetDesc (sorted_v st)\<rparr>;
            st = st\<lparr>topN := min (topN st) (length (sorted_v st))\<rparr>;
            st = put (banner (topN st)) st;
            st = put header st
        in print_rows fixed2 0 st)"

section \<open>Win32Error (Win32Error.hpp)\<close>

text \<open>
  The exception object: the message of \<open>std::runtime_error\<close> and the stored code. The
  constructor's default argument \<open>::GetLastError()\<close> is the code left by the failed call.
\<close>

record Win32Error =
  what :: string
  code_v :: dword

definition Win32Error_ctor :: "string \<Rightarrow> dword \<Rightarrow> Win32Error" where
  "Win32Error_ctor context errorCode =
     \<lparr>what = context @ ''(error '' @ to_string (unat errorCode) @ '')'', code_v = errorCode\<rparr>"

definition code :: "Win32Error \<Rightarrow> dword" where
  "code e = code_v e"

text \<open>What a \<open>throw\<close> can carry to the handlers of \<open>runSniffer\<close>.\<close>

datatype thrown = Thrown_Win32Error Win32Error | Thrown_exception string

section \<open>The operating system\<close>

text \<open>
  The Win32 calls the program makes are parameters of the model, collected in one record.
  \<^item> \<open>EnumProcesses\<close>: given the number of the call (the process list may change between
    calls) and the buffer size \<open>cb\<close> in bytes, either fails leaving an error code, or
    succeeds, having written some IDs from the start of the buffer and set
    \<open>bytesReturned\<close>.
  \<^item> \<open>OpenProcess\<close>: desired access, inherit flag and PID; \<open>nullptr\<close> on failure.
  \<^item> \<open>GetProcessMemoryInfo\<close>: the counters, or \<open>None\<close> when the call returns FALSE.
  \<^item> \<open>GetModuleBaseNameW\<close>: the NUL-terminated string the call leaves in the buffer,
    without the terminator; the return value of the call is its length, so the empty
    string is the failure (return value 0).
  \<^item> \<open>QueryFullProcessImageNameW\<close>: the NUL-terminated path left in the buffer, or
    \<open>None\<close> when the call returns FALSE.
  Both name calls also receive the buffer size, \<open>MAX_PATH\<close> code units.
\<close>

datatype enum_reply = EnumFailed dword | EnumOk "dword list" dword

record PROCESS_MEMORY_COUNTERS_EX =
  WorkingSetSize :: nat
  PrivateUsage :: nat

record win32 =
  EnumProcesses :: "nat \<Rightarrow> dword \<Rightarrow> enum_reply"
  OpenProcess :: "dword \<Rightarrow> bool \<Rightarrow> dword \<Rightarrow> HANDLE"
  GetProcessMemoryInfo :: "HANDLE \<Rightarrow> PROCESS_MEMORY_COUNTERS_EX option"
  GetModuleBaseNameW :: "HANDLE \<Rightarrow> nat \<Rightarrow> wstring"
  QueryFullProcessImageNameW :: "HANDLE \<Rightarrow> nat \<Rightarrow> wstring option"

text \<open>The calls made on process handles, in order, as an inspection performs them.\<close>

datatype os_call =
    Call_OpenProcess dword bool dword
  | Call_CloseHandle HANDLE
  | Call_GetProcessMemoryInfo HANDLE
  | Call_GetModuleBaseNameW HANDLE
  | Call_QueryFullProcessImageNameW HANDLE

definition PROCESS_QUERY_INFORMATION :: dword where
  "PROCESS_QUERY_INFORMATION = 0x0400"

definition PROCESS_VM_READ :: dword where
  "PROCESS_VM_READ = 0x0010"

definition MAX_PATH :: nat where
  "MAX_PATH = 260"

section \<open>ProcessHandle (ProcessHandle.hpp)\<close>

text \<open>
  The wrapper has one member, \<open>handle_\<close> (field \<open>handle_v\<close>). Copy construction
  and copy assignment are deleted in the source, so the model has no operation that
  duplicates a wrapper.
  Operations that may call \<open>::CloseHandle\<close> take and return the call log.
\<close>

record ProcessHandle =
  handle_v :: HANDLE

definition ProcessHandle_default :: ProcessHandle where
  "ProcessHandle_default = \<lparr>handle_v = nullptr\<rparr>"

definition ProcessHandle_ctor :: "HANDLE \<Rightarrow> ProcessHandle" where
  "ProcessHandle_ctor handle = \<lparr>handle_v = handle\<rparr>"

definition get :: "ProcessHandle \<Rightarrow> HANDLE" where
  "get this = handle_v this"

definition operator_bool :: "ProcessHandle \<Rightarrow> bool" where
  "operator_bool this \<longleftrightarrow> handle_v this \<noteq> nullptr"

definition close :: "ProcessHandle \<Rightarrow> os_call list \<Rightarrow> ProcessHandle \<times> os_call list" where
  "close this log =
     (if handle_v this \<noteq> nullptr
      then (this\<lparr>handle_v := nullptr\<rparr>, log @ [Call_CloseHandle (handle_v this)])
      else (this, log))"

text \<open>\<open>~ProcessHandle()\<close>: the object is gone afterwards, only the log remains.\<close>

definition destructor :: "ProcessHandle \<Rightarrow> os_call list \<Rightarrow> os_call list" where
  "destructor this log = snd (close this log)"

text \<open>
  The move constructor: the new object and the moved-from source
  (\<open>std::exchange(other.handle_, nullptr)\<close>).
\<close>

definition move_ctor :: "ProcessHandle \<Rightarrow> ProcessHandle \<times> ProcessHandle" where
  "move_ctor other = (\<lparr>handle_v = handle_v other\<rparr>, other\<lparr>handle_v := nullptr\<rparr>)"

text \<open>
  Move assignment compares the addresses of its operands, so the objects live in a store
  indexed by address.
\<close>

type_synonym handle_store = "nat \<Rightarrow> ProcessHandle"

definition move_assign ::
  "nat \<Rightarrow> nat \<Rightarrow> handle_store \<Rightarrow> os_call list \<Rightarrow> handle_store \<times> os_call list" where
  "move_assign this other st log =
     (if this \<noteq> other then
        let (closed, log) = close (st this) log;
            st = st(this := closed);
            h = handle_v (st other);
            st = st(other := (st other)\<lparr>handle_v := nullptr\<rparr>);
            st = st(this := (st this)\<lparr>handle_v := h\<rparr>)
        in (st, log)
      else (st, log))"

text \<open>
  \<open>ProcessHandle::open\<close>. On success the temporary \<open>ProcessHandle(handle)\<close> is moved into
  the returned \<open>std::optional\<close> and then destroyed.
\<close>

definition ProcessHandle_open ::
  "win32 \<Rightarrow> dword \<Rightarrow> os_call list \<Rightarrow> ProcessHandle option \<times> os_call list" where
  "ProcessHandle_open os p log =
     (let access = or PROCESS_QUERY_INFORMATION PROCESS_VM_READ;
          handle = OpenProcess os access False p;
          log = log @ [Call_OpenProcess access False p]
      in if handle = nullptr then (None, log)
         else
           let temporary = ProcessHandle_ctor handle;
               (held, temporary) = move_ctor temporary
           in (Some held, destructor temporary log))"

text \<open>\<open>~optional<ProcessHandle>()\<close>: destroys the contained wrapper, if there is one.\<close>

definition optional_destructor :: "ProcessHandle option \<Rightarrow> os_call list \<Rightarrow> os_call list" where
  "optional_destructor opt log = (case opt of None \<Rightarrow> log | Some h \<Rightarrow> destructor h log)"

section \<open>ProcessQueryService (ProcessQueryService.cpp)\<close>

definition PID_VECT_SIZE :: nat where
  "PID_VECT_SIZE = 1024"

definition sizeof_DWORD :: nat where
  "sizeof_DWORD = 4"

text \<open>
  The effect of a successful \<open>EnumProcesses\<close> call on the vector: the IDs written replace
  the front of the buffer, the rest keeps its value, the size does not change.
\<close>

definition written_into :: "dword list \<Rightarrow> dword list \<Rightarrow> dword list" where
  "written_into ids buf = take (length buf) ids @ drop (length ids) buf"

text \<open>
  The \<open>while (true)\<close> loop of \<open>enumerateProcessIds\<close>; \<open>k\<close> counts the calls made so far.
  The loop has no bound of its own, so it is a partial function: \<open>None\<close> is a run that
  never leaves the loop. \<open>static_cast<DWORD>\<close> of the byte size is \<open>word_of_nat\<close>.
\<close>

partial_function (option) enum_loop ::
  "win32 \<Rightarrow> nat \<Rightarrow> dword list \<Rightarrow> (thrown + dword list) option" where
  "enum_loop os k pids =
     (case EnumProcesses os k (word_of_nat (length pids * sizeof_DWORD)) of
        EnumFailed err \<Rightarrow>
          Some (Inl (Thrown_Win32Error (Win32Error_ctor ''EnumProcesses failed.'' err)))
      | EnumOk ids bytesReturned \<Rightarrow>
          (let pids = written_into ids pids;
               count = unat bytesReturned div sizeof_DWORD
           in if count < length pids then Some (Inr (take count pids))
              else enum_loop os (Suc k) (pids @ replicate (length pids) 0)))"

definition enumerateProcessIds :: "win32 \<Rightarrow> (thrown + dword list) option" where
  "enumerateProcessIds os = enum_loop os 0 (replicate PID_VECT_SIZE 0)"

definition tryGetProcessName ::
  "win32 \<Rightarrow> HANDLE \<Rightarrow> os_call list \<Rightarrow> wstring \<times> os_call list" where
  "tryGetProcessName os process log =
     (let buffer = GetModuleBaseNameW os process MAX_PATH;
          log = log @ [Call_GetModuleBaseNameW process]
      in if length buffer \<noteq> 0 then (buffer, log)
         else
           let log = log @ [Call_QueryFullProcessImageNameW process]
           in case QueryFullProcessImageNameW os process MAX_PATH of
                Some buffer \<Rightarrow> (buffer, log)
              | None \<Rightarrow> (L ''<unknown>'', log))"

text \<open>
  \<open>queryProcess\<close> returns the optional record together with the calls it made.
  \<open>handleOpt\<close> is destroyed at every \<open>return\<close> that follows its declaration.
\<close>

definition queryProcess :: "win32 \<Rightarrow> dword \<Rightarrow> ProcessInfo option \<times> os_call list" where
  "queryProcess os p =
     (if p = 0 then (None, [])
      else
        let (handleOpt, log) = ProcessHandle_open os p [] in
        case handleOpt of
          None \<Rightarrow> (None, optional_destructor handleOpt log)
        | Some h \<Rightarrow>
            (let log = log @ [Call_GetProcessMemoryInfo (get h)] in
             case GetProcessMemoryInfo os (get h) of
               None \<Rightarrow> (None, optional_destructor handleOpt log)
             | Some pmc \<Rightarrow>
                 (let (nm, log) = tryGetProcessName os (get h) log;
                      info = \<lparr>pid = p, name = nm,
                              workingSetBytes = WorkingSetSize pmc,
                              privateBytes = PrivateUsage pmc\<rparr>
                  in (Some info, optional_destructor handleOpt log))))"

text \<open>The range-for loop of \<open>collectProcesses\<close>, appending to \<open>result\<close>.\<close>

fun collect_loop :: "win32 \<Rightarrow> dword list \<Rightarrow> ProcessInfo list \<Rightarrow> ProcessInfo list" where
  "collect_loop os [] result = result"
| "collect_loop os (p # pids) result =
     (case fst (queryProcess os p) of
        Some info \<Rightarrow> collect_loop os pids (result @ [info])
      | None \<Rightarrow> collect_loop os pids result)"

definition collectProcesses :: "win32 \<Rightarrow> (thrown + ProcessInfo list) option" where
  "collectProcesses os =
     (case enumerateProcessIds os of
        None \<Rightarrow> None
      | Some (Inl ex) \<Rightarrow> Some (Inl ex)
      | Some (Inr pids) \<Rightarrow> Some (Inr (collect_loop os pids [])))"

section \<open>runSniffer and wmain\<close>

definition EXIT_SUCCESS :: int where
  "EXIT_SUCCESS = 0"

definition EXIT_FAILURE :: int where
  "EXIT_FAILURE = 1"

text \<open>
  What a run leaves behind: the return value, the text on \<open>std::wcout\<close>, the text on
  \<open>std::cerr\<close>, and the vector \<open>processes\<close> as it is when the function returns (empty when
  \<open>collectProcesses\<close> threw).
\<close>

record run =
  exit_status :: int
  std_wcout :: wstring
  std_cerr :: string
  collected :: "ProcessInfo list"

definition runSniffer ::
  "sort_library \<Rightarrow> (Bytes \<Rightarrow> wstring) \<Rightarrow> win32 \<Rightarrow> nat \<Rightarrow> run option" where
  "runSniffer impl fixed2 os n =
     (case collectProcesses os of
        None \<Rightarrow> None
      | Some (Inr procs) \<Rightarrow>
          (let st = printTopByWorkingSet impl fixed2 procs n []
           in Some \<lparr>exit_status = EXIT_SUCCESS, std_wcout = wcout st, std_cerr = [],
                    collected = processes st\<rparr>)
      | Some (Inl (Thrown_Win32Error ex)) \<Rightarrow>
          Some \<lparr>exit_status = EXIT_FAILURE, std_wcout = [],
                std_cerr = ''Win32 error: '' @ what ex @ ''\<newline>'', collected = []\<rparr>
      | Some (Inl (Thrown_exception msg)) \<Rightarrow>
          Some \<lparr>exit_status = EXIT_FAILURE, std_wcout = [],
                std_cerr = ''Error: '' @ msg @ ''\<newline>'', collected = []\<rparr>)"

definition wmain :: "sort_library \<Rightarrow> (Bytes \<Rightarrow> wstring) \<Rightarrow> win32 \<Rightarrow> run option" where
  "wmain impl fixed2 os = runSniffer impl fixed2 os 10"

section \<open>Describing runs of the enumeration loop\<close>

text \<open>
  A reply reports a full buffer when the call succeeded and the count it returned is not
  below the capacity. \<open>full_calls os k\<close>: calls 0 to \<open>k - 1\<close>, each made with the
  buffer of \<open>PID_VECT_SIZE * 2 ^ i\<close> entries that the loop passes, reported a full buffer.
\<close>

fun reports_full :: "enum_reply \<Rightarrow> nat \<Rightarrow> bool" where
  "reports_full (EnumOk ids b) capacity \<longleftrightarrow> capacity \<le> unat b div sizeof_DWORD"
| "reports_full (EnumFailed err) capacity \<longleftrightarrow> False"

primrec full_calls :: "win32 \<Rightarrow> nat \<Rightarrow> bool" where
  "full_calls os 0 \<longleftrightarrow> True"
| "full_calls os (Suc k) \<longleftrightarrow>
     full_calls os k
     \<and> reports_full (EnumProcesses os k (word_of_nat (PID_VECT_SIZE * 2 ^ k * sizeof_DWORD)))
          (PID_VECT_SIZE * 2 ^ k)"

section \<open>Acquisitions and releases in a call log\<close>

text \<open>
  The handles passed to \<open>::CloseHandle\<close>, and the handles returned by the successful
  \<open>::OpenProcess\<close> calls, each in the order of the log.
\<close>

fun released :: "os_call list \<Rightarrow> HANDLE list" where
  "released [] = []"
| "released (Call_CloseHandle h # calls) = h # released calls"
| "released (c # calls) = released calls"

fun acquired :: "win32 \<Rightarrow> os_call list \<Rightarrow> HANDLE list" where
  "acquired os [] = []"
| "acquired os (Call_OpenProcess access inherit p # calls) =
     (if OpenProcess os access inherit p \<noteq> nullptr
      then OpenProcess os access inherit p # acquired os calls
      else acquired os calls)"
| "acquired os (c # calls) = acquired os calls"

section \<open>Stubs of the operating system\<close>

text \<open>
  \<open>EnumProcesses\<close> over a fixed list of live IDs: it copies as many IDs as fit into \<open>cb\<close>
  bytes and reports the number of bytes written.
\<close>

definition EnumProcesses_of :: "dword list \<Rightarrow> nat \<Rightarrow> dword \<Rightarrow> enum_reply" where
  "EnumProcesses_of ids k cb =
     (let n = min (length ids) (unat cb div sizeof_DWORD)
      in EnumOk (take n ids) (word_of_nat (n * sizeof_DWORD)))"

text \<open>
  IDs 0, 100 and 200: 100 cannot be opened; 200 opens, has a working set of 50 MiB,
  20 MiB of private bytes and the module base name \<open>app.exe\<close>.
\<close>

definition example_os :: win32 where
  "example_os =
     \<lparr>EnumProcesses = EnumProcesses_of [0, 100, 200],
      OpenProcess = (\<lambda>access inherit p. if p = 200 then 452 else nullptr),
      GetProcessMemoryInfo =
        (\<lambda>h. if h = 452 then Some \<lparr>WorkingSetSize = 52428800, PrivateUsage = 20971520\<rparr>
             else None),
      GetModuleBaseNameW = (\<lambda>h nSize. if h = 452 then L ''app.exe'' else []),
      QueryFullProcessImageNameW = (\<lambda>h size. None)\<rparr>"

text \<open>Two processes that can both be inspected: working sets of 10 MiB and 50 MiB.\<close>

definition small_exe :: ProcessInfo where
  "small_exe = \<lparr>pid = 100, name = L ''small.exe'',
                 workingSetBytes = 10485760, privateBytes = 4194304\<rparr>"

definition app_exe :: ProcessInfo where
  "app_exe = \<lparr>pid = 200, name = L ''app.exe'',
               workingSetBytes = 52428800, privateBytes = 20971520\<rparr>"

definition two_process_os :: win32 where
  "two_process_os =
     \<lparr>EnumProcesses = EnumProcesses_of [100, 200],
      OpenProcess = (\<lambda>access inherit p. if p = 100 then 448 else if p = 200 then 452 else nullptr),
      GetProcessMemoryInfo =
        (\<lambda>h. if h = 448 then Some \<lparr>WorkingSetSize = 10485760, PrivateUsage = 4194304\<rparr>
             else if h = 452 then Some \<lparr>WorkingSetSize = 52428800, PrivateUsage = 20971520\<rparr>
             else None),
      GetModuleBaseNameW =
        (\<lambda>h nSize. if h = 448 then L ''small.exe'' else if h = 452 then L ''app.exe'' else []),
      QueryFullProcessImageNameW = (\<lambda>h size. None)\<rparr>"

text \<open>A third process, with the same working set as \<open>small.exe\<close>.\<close>

definition twin_exe :: ProcessInfo where
  "twin_exe = \<lparr>pid = 300, name = L ''twin.exe'',
                workingSetBytes = 10485760, privateBytes = 1048576\<rparr>"

text \<open>A stand-in for the fixed-notation output of a size that is a whole number of MiB.\<close>

definition whole_MiB :: "Bytes \<Rightarrow> wstring" where
  "whole_MiB b = L (to_string (b div 1048576)) @ L ''.00''"

text \<open>5000 live processes: more than the buffer holds before its third doubling.\<close>

definition many_ids :: "dword list" where
  "many_ids = map word_of_nat [1..<5001]"

definition crowded_os :: win32 where
  "crowded_os = example_os\<lparr>EnumProcesses := EnumProcesses_of many_ids\<rparr>"

text \<open>
  The first call fills the buffer, the second fails with \<open>ERROR_ACCESS_DENIED\<close> (5).
\<close>

definition failing_os :: win32 where
  "failing_os =
     example_os\<lparr>EnumProcesses :=
       (\<lambda>k cb. if k = 0 then EnumOk (replicate 1024 4) 4096 else EnumFailed 5)\<rparr>"

text \<open>No module base name, but a full image path; and neither of them.\<close>

definition path_only_os :: win32 where
  "path_only_os =
     example_os\<lparr>GetModuleBaseNameW := (\<lambda>h nSize. []),
                QueryFullProcessImageNameW :=
                  (\<lambda>h size. if h = 452 then Some (L ''D:/tools/app.exe'') else None)\<rparr>"

definition nameless_os :: win32 where
  "nameless_os = example_os\<lparr>GetModuleBaseNameW := (\<lambda>h nSize. [])\<rparr>"

text \<open>
  No module base name, and a path query that succeeds with an empty path.
\<close>

definition empty_path_os :: win32 where
  "empty_path_os =
     example_os\<lparr>GetModuleBaseNameW := (\<lambda>h nSize. []),
                QueryFullProcessImageNameW := (\<lambda>h size. if h = 452 then Some [] else None)\<rparr>"

text \<open>Process 200 opens, but its memory counters cannot be read.\<close>

definition no_counters_os :: win32 where
  "no_counters_os = example_os\<lparr>GetProcessMemoryInfo := (\<lambda>h. None)\<rparr>"

section \<open>Properties of the report\<close>

declare print_rows.simps [simp del]

declare to_string.simps [simp del]

lemma length_L: "length (L s) = length s"
  by (simp add: L_def)

lemma displayName_short: "length nm \<le> MAX_NAME_LEN \<Longrightarrow> displayName nm = nm"
  by (simp add: displayName_def)

lemma displayName_long:
  "length nm > MAX_NAME_LEN \<Longrightarrow> displayName nm = take 27 nm @ L ''...''"
  by (simp add: displayName_def MAX_NAME_LEN_def)

lemma length_displayName_long:
  "length nm > MAX_NAME_LEN \<Longrightarrow> length (displayName nm) = 30"
  by (simp add: displayName_def MAX_NAME_LEN_def length_L)

text \<open>
  C1. A name longer than \<open>MAX_NAME_LEN\<close> = 28 is cut to its first 27 code units and
  followed by the three-unit marker \<open>...\<close>, so the text printed has 30 code units: the
  29-unit name below is printed as 30 units, more than the limit of 28.
\<close>

theorem displayName_exceeds_MAX_NAME_LEN:
  "length (L ''ABCDEFGHIJKLMNOPQRSTUVWXYZabc'') = 29
   \<and> displayName (L ''ABCDEFGHIJKLMNOPQRSTUVWXYZabc'') = L ''ABCDEFGHIJKLMNOPQRSTUVWXYZa...''
   \<and> length (displayName (L ''ABCDEFGHIJKLMNOPQRSTUVWXYZabc'')) = 30
   \<and> MAX_NAME_LEN < length (displayName (L ''ABCDEFGHIJKLMNOPQRSTUVWXYZabc''))"
  by (simp add: displayName_def MAX_NAME_LEN_def L_def)

subsection \<open>Sorting\<close>

lemma mset_sort_insert: "mset (sort_insert cmp x xs) = add_mset x (mset xs)"
  by (induction xs) auto

lemma mset_insertion_sort: "mset (insertion_sort cmp xs) = mset xs"
  by (induction xs) (auto simp: insertion_sort_def mset_sort_insert)

lemma set_sort_insert: "set (sort_insert cmp x xs) = insert x (set xs)"
  by (induction xs) auto

lemma sorted_sort_insert:
  "sorted_wrt (\<lambda>a b. workingSetBytes b \<le> workingSetBytes a) xs \<Longrightarrow>
   sorted_wrt (\<lambda>a b. workingSetBytes b \<le> workingSetBytes a)
     (sort_insert byWorkingSetDesc x xs)"
  by (induction xs) (auto simp: set_sort_insert byWorkingSetDesc_def)

lemma sorted_insertion_sort:
  "sorted_wrt (\<lambda>a b. workingSetBytes b \<le> workingSetBytes a)
     (insertion_sort byWorkingSetDesc xs)"
proof (induction xs)
  case Nil
  show ?case by (simp add: insertion_sort_def)
next
  case (Cons x xs)
  then show ?case
    using sorted_sort_insert [of "insertion_sort byWorkingSetDesc xs" x]
    by (simp add: insertion_sort_def)
qed

lemma not_byWorkingSetDesc:
  "(\<lambda>a b. \<not> byWorkingSetDesc b a) = (\<lambda>a b. workingSetBytes b \<le> workingSetBytes a)"
  by (auto simp: byWorkingSetDesc_def fun_eq_iff)

lemma insertion_sort_sorted_by:
  "sorted_by byWorkingSetDesc xs (insertion_sort byWorkingSetDesc xs)"
  by (simp add: sorted_by_def mset_insertion_sort not_byWorkingSetDesc sorted_insertion_sort)

lemma std_sort_insertion_sort:
  "std_sort insertion_sort byWorkingSetDesc xs = insertion_sort byWorkingSetDesc xs"
  by (simp add: std_sort_def)

lemma mset_std_sort: "mset (std_sort impl cmp xs) = mset xs"
  by (simp add: std_sort_def sorted_by_def mset_insertion_sort)

lemma length_std_sort: "length (std_sort impl cmp xs) = length xs"
  using mset_std_sort [of impl cmp xs] by (metis size_mset)

lemma sorted_std_sort:
  "sorted_wrt (\<lambda>a b. workingSetBytes b \<le> workingSetBytes a)
     (std_sort impl byWorkingSetDesc xs)"
  by (simp add: std_sort_def sorted_by_def not_byWorkingSetDesc sorted_insertion_sort)

subsection \<open>The row loop\<close>

lemma print_rows_eq:
  "topN st \<le> length (sorted_v st) \<Longrightarrow>
   print_rows fixed2 i st =
     st\<lparr>wcout := wcout st
          @ concat (map (printRow fixed2) (drop i (take (topN st) (sorted_v st))))\<rparr>"
proof (induction fixed2 i st rule: print_rows.induct)
  case (1 fixed2 i st)
  show ?case
  proof (cases "i < topN st")
    case True
    with "1.prems" have len: "i < length (take (topN st) (sorted_v st))" by simp
    have d: "drop i (take (topN st) (sorted_v st)) =
             sorted_v st ! i # drop (Suc i) (take (topN st) (sorted_v st))"
      using Cons_nth_drop_Suc [OF len] True by simp
    have "print_rows fixed2 i st
          = print_rows fixed2 (Suc i) (put (printRow fixed2 (sorted_v st ! i)) st)"
      using True by (subst print_rows.simps) simp
    also have "\<dots> = st\<lparr>wcout := wcout st @ concat (map (printRow fixed2)
                        (drop i (take (topN st) (sorted_v st))))\<rparr>"
      using "1.IH" [OF True] "1.prems" by (simp add: put_def d)
    finally show ?thesis .
  next
    case False
    then show ?thesis by (subst print_rows.simps) simp
  qed
qed

lemma wcout_printTopByWorkingSet:
  "procs \<noteq> [] \<Longrightarrow>
   wcout (printTopByWorkingSet impl fixed2 procs n out) =
     out @ banner (min n (length procs)) @ header
     @ concat (map (printRow fixed2)
         (take (min n (length procs)) (std_sort impl byWorkingSetDesc procs)))"
  by (simp add: printTopByWorkingSet_def Let_def print_rows_eq put_def length_std_sort)

lemma processes_printTopByWorkingSet:
  "processes (printTopByWorkingSet impl fixed2 procs n out) = procs"
  by (simp add: printTopByWorkingSet_def Let_def print_rows_eq put_def length_std_sort)

section \<open>The enumeration loop\<close>

lemma length_written_into: "length (written_into ids buf) = length buf"
  by (simp add: written_into_def)

lemma take_written_into:
  "n \<le> length buf \<Longrightarrow> take (length ids) (take n (written_into ids buf)) = take n ids"
  by (simp add: written_into_def min_def)

lemma enum_loop_fail:
  "EnumProcesses os k (word_of_nat (length pids * sizeof_DWORD)) = EnumFailed err \<Longrightarrow>
   enum_loop os k pids =
     Some (Inl (Thrown_Win32Error (Win32Error_ctor ''EnumProcesses failed.'' err)))"
  by (subst enum_loop.simps) simp

lemma enum_loop_stop:
  "EnumProcesses os k (word_of_nat (length pids * sizeof_DWORD)) = EnumOk ids b \<Longrightarrow>
   unat b div sizeof_DWORD < length pids \<Longrightarrow>
   enum_loop os k pids = Some (Inr (take (unat b div sizeof_DWORD) (written_into ids pids)))"
  by (subst enum_loop.simps) (simp add: length_written_into)

lemma enum_loop_grow:
  "EnumProcesses os k (word_of_nat (length pids * sizeof_DWORD)) = EnumOk ids b \<Longrightarrow>
   length pids \<le> unat b div sizeof_DWORD \<Longrightarrow>
   enum_loop os k pids =
     enum_loop os (Suc k) (written_into ids pids @ replicate (length pids) 0)"
  by (subst enum_loop.simps) (simp add: length_written_into)


lemma full_calls_run:
  "full_calls os k \<Longrightarrow>
   \<exists>pids. length pids = PID_VECT_SIZE * 2 ^ k
        \<and> enum_loop os 0 (replicate PID_VECT_SIZE 0) = enum_loop os k pids"
proof (induction k)
  case 0
  show ?case by (intro exI [of _ "replicate PID_VECT_SIZE 0"]) simp
next
  case (Suc k)
  then obtain pids where len: "length pids = PID_VECT_SIZE * 2 ^ k"
    and eq: "enum_loop os 0 (replicate PID_VECT_SIZE 0) = enum_loop os k pids"
    by auto
  from Suc.prems obtain ids b where
    r: "EnumProcesses os k (word_of_nat (PID_VECT_SIZE * 2 ^ k * sizeof_DWORD)) = EnumOk ids b"
    and f: "PID_VECT_SIZE * 2 ^ k \<le> unat b div sizeof_DWORD"
    by (cases "EnumProcesses os k (word_of_nat (PID_VECT_SIZE * 2 ^ k * sizeof_DWORD))") auto
  let ?next = "written_into ids pids @ replicate (length pids) 0"
  have "enum_loop os k pids = enum_loop os (Suc k) ?next"
    using r f len by (intro enum_loop_grow) simp_all
  moreover have "length ?next = PID_VECT_SIZE * 2 ^ Suc k"
    using len by (simp add: length_written_into)
  ultimately show ?case using eq by metis
qed

lemma enumerateProcessIds_after_full_calls:
  assumes "full_calls os k"
      and "EnumProcesses os k (word_of_nat (PID_VECT_SIZE * 2 ^ k * sizeof_DWORD)) = EnumOk ids b"
      and "unat b div sizeof_DWORD < PID_VECT_SIZE * 2 ^ k"
  shows "\<exists>res. enumerateProcessIds os = Some (Inr res)
           \<and> length res = unat b div sizeof_DWORD
           \<and> take (length ids) res = take (unat b div sizeof_DWORD) ids"
proof -
  from full_calls_run [OF assms(1)] obtain pids where
    len: "length pids = PID_VECT_SIZE * 2 ^ k"
    and eq: "enum_loop os 0 (replicate PID_VECT_SIZE 0) = enum_loop os k pids"
    by auto
  let ?res = "take (unat b div sizeof_DWORD) (written_into ids pids)"
  have "enum_loop os k pids = Some (Inr ?res)"
    using assms(2,3) len by (intro enum_loop_stop) simp_all
  moreover have "length ?res = unat b div sizeof_DWORD"
    using assms(3) len by (simp add: length_written_into)
  moreover have "take (length ids) ?res = take (unat b div sizeof_DWORD) ids"
    using assms(3) len by (intro take_written_into) simp
  ultimately show ?thesis using eq by (simp add: enumerateProcessIds_def)
qed

lemma enumerateProcessIds_fails_after_full_calls:
  assumes "full_calls os k"
      and "EnumProcesses os k (word_of_nat (PID_VECT_SIZE * 2 ^ k * sizeof_DWORD)) = EnumFailed err"
  shows "enumerateProcessIds os =
           Some (Inl (Thrown_Win32Error (Win32Error_ctor ''EnumProcesses failed.'' err)))"
proof -
  from full_calls_run [OF assms(1)] obtain pids where
    len: "length pids = PID_VECT_SIZE * 2 ^ k"
    and eq: "enum_loop os 0 (replicate PID_VECT_SIZE 0) = enum_loop os k pids"
    by auto
  have "enum_loop os k pids =
          Some (Inl (Thrown_Win32Error (Win32Error_ctor ''EnumProcesses failed.'' err)))"
    using assms(2) len by (intro enum_loop_fail) simp
  then show ?thesis using eq by (simp add: enumerateProcessIds_def)
qed

subsection \<open>The stub over a fixed list of IDs\<close>

lemma unat_cb:
  assumes "i \<le> 19"
  shows "unat (word_of_nat (PID_VECT_SIZE * 2 ^ i * sizeof_DWORD) :: dword) div sizeof_DWORD
         = PID_VECT_SIZE * 2 ^ i"
proof -
  have "(2::nat) ^ i \<le> 2 ^ 19" using assms by (intro power_increasing) simp_all
  then have "PID_VECT_SIZE * 2 ^ i * sizeof_DWORD < 2 ^ 32"
    by (simp add: PID_VECT_SIZE_def sizeof_DWORD_def)
  then have "unat (word_of_nat (PID_VECT_SIZE * 2 ^ i * sizeof_DWORD) :: dword)
             = PID_VECT_SIZE * 2 ^ i * sizeof_DWORD"
    unfolding unat_of_nat by simp
  then show ?thesis by (simp add: sizeof_DWORD_def)
qed

lemma unat_bytes:
  assumes "n < 2 ^ 29"
  shows "unat (word_of_nat (n * sizeof_DWORD) :: dword) div sizeof_DWORD = n"
proof -
  have "n * sizeof_DWORD < 2 ^ 32" using assms by (simp add: sizeof_DWORD_def)
  then have "unat (word_of_nat (n * sizeof_DWORD) :: dword) = n * sizeof_DWORD"
    unfolding unat_of_nat by simp
  then show ?thesis by (simp add: sizeof_DWORD_def)
qed

text \<open>
  After 20 doublings the buffer has \<open>2 ^ 30\<close> entries and its size in bytes no longer fits
  a \<open>DWORD\<close>: the primitive is then told that the buffer has 0 bytes.
\<close>

lemma byte_size_wraps:
  "(word_of_nat (PID_VECT_SIZE * 2 ^ 20 * sizeof_DWORD) :: dword) = 0"
  by (simp add: PID_VECT_SIZE_def sizeof_DWORD_def)

lemma EnumProcesses_of_reply:
  "i \<le> 19 \<Longrightarrow>
   EnumProcesses_of ids j (word_of_nat (PID_VECT_SIZE * 2 ^ i * sizeof_DWORD))
     = EnumOk (take (min (length ids) (PID_VECT_SIZE * 2 ^ i)) ids)
         (word_of_nat (min (length ids) (PID_VECT_SIZE * 2 ^ i) * sizeof_DWORD))"
  by (simp only: EnumProcesses_of_def Let_def unat_cb)

lemma EnumProcesses_of_full:
  assumes "i \<le> 19" and "PID_VECT_SIZE * 2 ^ i \<le> length ids"
  shows "reports_full
           (EnumProcesses_of ids j (word_of_nat (PID_VECT_SIZE * 2 ^ i * sizeof_DWORD)))
           (PID_VECT_SIZE * 2 ^ i)"
proof -
  have m: "min (length ids) (PID_VECT_SIZE * 2 ^ i) = PID_VECT_SIZE * 2 ^ i"
    using assms(2) by simp
  show ?thesis
    by (simp only: EnumProcesses_of_reply [OF assms(1)] m reports_full.simps
          unat_cb [OF assms(1)] order_refl)
qed

lemma EnumProcesses_of_full_calls:
  assumes os: "EnumProcesses os = EnumProcesses_of ids"
  shows "k \<le> 20 \<Longrightarrow> (\<forall>i<k. PID_VECT_SIZE * 2 ^ i \<le> length ids) \<Longrightarrow> full_calls os k"
proof (induction k)
  case 0
  show ?case by simp
next
  case (Suc k)
  then have "full_calls os k" by simp
  moreover have "reports_full
      (EnumProcesses os k (word_of_nat (PID_VECT_SIZE * 2 ^ k * sizeof_DWORD)))
      (PID_VECT_SIZE * 2 ^ k)"
    unfolding os using Suc.prems by (intro EnumProcesses_of_full) simp_all
  ultimately show ?case by (simp only: full_calls.simps)
qed

lemma EnumProcesses_of_list:
  assumes os: "EnumProcesses os = EnumProcesses_of ids"
      and small: "length ids < 2 ^ 29"
  shows "enumerateProcessIds os = Some (Inr ids)"
proof -
  define k where "k = (LEAST k. length ids < PID_VECT_SIZE * 2 ^ k)"
  have "length ids < PID_VECT_SIZE * 2 ^ 19"
    using small by (simp add: PID_VECT_SIZE_def)
  then have below: "length ids < PID_VECT_SIZE * 2 ^ k" and k19: "k \<le> 19"
    unfolding k_def by (rule LeastI, rule Least_le)
  have above: "PID_VECT_SIZE * 2 ^ i \<le> length ids" if "i < k" for i
    using not_less_Least [of i "\<lambda>k. length ids < PID_VECT_SIZE * 2 ^ k"] that
    unfolding k_def by simp
  have full: "full_calls os k"
    using k19 above by (intro EnumProcesses_of_full_calls [OF os]) simp_all
  have m: "min (length ids) (PID_VECT_SIZE * 2 ^ k) = length ids"
    using below by simp
  have last: "EnumProcesses os k (word_of_nat (PID_VECT_SIZE * 2 ^ k * sizeof_DWORD))
      = EnumOk ids (word_of_nat (length ids * sizeof_DWORD))"
    using EnumProcesses_of_reply [OF k19, of ids k] by (simp only: os m) simp
  have cnt: "unat (word_of_nat (length ids * sizeof_DWORD) :: dword) div sizeof_DWORD = length ids"
    using small by (rule unat_bytes)
  have below': "unat (word_of_nat (length ids * sizeof_DWORD) :: dword) div sizeof_DWORD
      < PID_VECT_SIZE * 2 ^ k"
    using below by (simp only: cnt)
  from enumerateProcessIds_after_full_calls [OF full last below']
  have "\<exists>res. enumerateProcessIds os = Some (Inr res) \<and> length res = length ids
          \<and> take (length ids) res = take (length ids) ids"
    by (simp only: cnt)
  then show ?thesis by auto
qed

lemma length_many_ids: "length many_ids = 5000"
  by (simp add: many_ids_def)

lemma EnumProcesses_crowded_os: "EnumProcesses crowded_os = EnumProcesses_of many_ids"
  by (simp add: crowded_os_def)

lemma crowded_first:
  "EnumProcesses crowded_os 0 (word_of_nat (length (replicate 1024 (0::dword)) * sizeof_DWORD))
     = EnumOk (take 1024 many_ids) 4096"
  using EnumProcesses_of_reply [of 0 many_ids 0]
  by (simp add: EnumProcesses_crowded_os PID_VECT_SIZE_def sizeof_DWORD_def length_many_ids)

lemma crowded_fourth:
  "EnumProcesses crowded_os 3 (word_of_nat (PID_VECT_SIZE * 2 ^ 3 * sizeof_DWORD))
     = EnumOk many_ids 20000"
  using EnumProcesses_of_reply [of 3 many_ids 3]
  by (simp add: EnumProcesses_crowded_os PID_VECT_SIZE_def sizeof_DWORD_def length_many_ids)

lemma crowded_full: "full_calls crowded_os 3"
proof (rule EnumProcesses_of_full_calls [OF EnumProcesses_crowded_os])
  show "(3::nat) \<le> 20" by simp
  show "\<forall>i<3. PID_VECT_SIZE * 2 ^ i \<le> length many_ids"
  proof (intro allI impI)
    fix i :: nat
    assume "i < 3"
    then have "(2::nat) ^ i \<le> 2 ^ 2" by (intro power_increasing) simp_all
    then show "PID_VECT_SIZE * 2 ^ i \<le> length many_ids"
      by (simp add: PID_VECT_SIZE_def length_many_ids)
  qed
qed

subsection \<open>Doubling until the count is below the capacity\<close>

text \<open>
  C3. \<open>enumerateProcessIds\<close> starts with a buffer of 1024 entries. A call that returns a
  count not below the capacity makes the loop double the buffer and call again; a call
  that returns a count strictly below the capacity ends the loop with exactly that many
  IDs. Hence, whenever the first \<open>n\<close> calls report a full buffer and the next one a count
  below the capacity \<open>1024 * 2 ^ n\<close>, the function returns (it does not loop forever), its
  result has exactly the reported count of entries, and they are the IDs written.
\<close>

theorem enumerateProcessIds_doubles_until_below_capacity:
  "enumerateProcessIds os = enum_loop os 0 (replicate 1024 0)
   \<and> (EnumProcesses os k (word_of_nat (length pids * sizeof_DWORD)) = EnumOk ids b
        \<and> length pids \<le> unat b div sizeof_DWORD
      \<longrightarrow> enum_loop os k pids
            = enum_loop os (Suc k) (written_into ids pids @ replicate (length pids) 0)
          \<and> length (written_into ids pids @ replicate (length pids) 0) = 2 * length pids)
   \<and> (EnumProcesses os k' (word_of_nat (length pids' * sizeof_DWORD)) = EnumOk ids' b'
        \<and> unat b' div sizeof_DWORD < length pids'
      \<longrightarrow> enum_loop os k' pids'
            = Some (Inr (take (unat b' div sizeof_DWORD) (written_into ids' pids')))
          \<and> length (take (unat b' div sizeof_DWORD) (written_into ids' pids'))
            = unat b' div sizeof_DWORD)
   \<and> (full_calls os n
        \<and> EnumProcesses os n (word_of_nat (PID_VECT_SIZE * 2 ^ n * sizeof_DWORD)) = EnumOk ids'' b''
        \<and> unat b'' div sizeof_DWORD < PID_VECT_SIZE * 2 ^ n
      \<longrightarrow> (\<exists>res. enumerateProcessIds os = Some (Inr res)
            \<and> length res = unat b'' div sizeof_DWORD
            \<and> take (length ids'') res = take (unat b'' div sizeof_DWORD) ids''))"
proof (intro conjI impI; (elim conjE)?)
  show "enumerateProcessIds os = enum_loop os 0 (replicate 1024 0)"
    by (simp add: enumerateProcessIds_def PID_VECT_SIZE_def)
next
  assume "EnumProcesses os k (word_of_nat (length pids * sizeof_DWORD)) = EnumOk ids b"
    and "length pids \<le> unat b div sizeof_DWORD"
  then show "enum_loop os k pids
      = enum_loop os (Suc k) (written_into ids pids @ replicate (length pids) 0)"
    by (rule enum_loop_grow)
next
  show "length (written_into ids pids @ replicate (length pids) 0) = 2 * length pids"
    by (simp add: length_written_into)
next
  assume "EnumProcesses os k' (word_of_nat (length pids' * sizeof_DWORD)) = EnumOk ids' b'"
    and "unat b' div sizeof_DWORD < length pids'"
  then show "enum_loop os k' pids'
      = Some (Inr (take (unat b' div sizeof_DWORD) (written_into ids' pids')))"
    by (rule enum_loop_stop)
next
  assume "unat b' div sizeof_DWORD < length pids'"
  then show "length (take (unat b' div sizeof_DWORD) (written_into ids' pids'))
      = unat b' div sizeof_DWORD"
    by (simp add: length_written_into)
next
  assume "full_calls os n"
    and "EnumProcesses os n (word_of_nat (PID_VECT_SIZE * 2 ^ n * sizeof_DWORD)) = EnumOk ids'' b''"
    and "unat b'' div sizeof_DWORD < PID_VECT_SIZE * 2 ^ n"
  then show "\<exists>res. enumerateProcessIds os = Some (Inr res)
            \<and> length res = unat b'' div sizeof_DWORD
            \<and> take (length ids'') res = take (unat b'' div sizeof_DWORD) ids''"
    by (rule enumerateProcessIds_after_full_calls)
qed

theorem enumerateProcessIds_doubles_until_below_capacity_witness:
  "EnumProcesses crowded_os 0 (word_of_nat (length (replicate 1024 (0::dword)) * sizeof_DWORD))
     = EnumOk (take 1024 many_ids) 4096
   \<and> length (replicate 1024 (0::dword)) \<le> unat (4096::dword) div sizeof_DWORD
   \<and> enum_loop crowded_os 0 (replicate 1024 0)
       = enum_loop crowded_os 1
           (written_into (take 1024 many_ids) (replicate 1024 0) @ replicate 1024 0)
   \<and> full_calls crowded_os 3
   \<and> EnumProcesses crowded_os 3 (word_of_nat (PID_VECT_SIZE * 2 ^ 3 * sizeof_DWORD))
       = EnumOk many_ids 20000
   \<and> unat (20000::dword) div sizeof_DWORD < PID_VECT_SIZE * 2 ^ 3
   \<and> length many_ids = 5000
   \<and> enumerateProcessIds crowded_os = Some (Inr many_ids)"
proof -
  have a: "length (replicate 1024 (0::dword)) \<le> unat (4096::dword) div sizeof_DWORD"
    by (simp add: sizeof_DWORD_def)
  have b: "unat (20000::dword) div sizeof_DWORD < PID_VECT_SIZE * 2 ^ 3"
    by (simp add: sizeof_DWORD_def PID_VECT_SIZE_def)
  have c: "unat (20000::dword) div sizeof_DWORD = 5000"
    by (simp add: sizeof_DWORD_def)
  note inst = enumerateProcessIds_doubles_until_below_capacity
    [of crowded_os 0 "replicate 1024 0" "take 1024 many_ids" 4096
        3 "replicate 8192 0" many_ids 20000 3 many_ids 20000]
  from inst crowded_first a
  have grow: "enum_loop crowded_os 0 (replicate 1024 0)
       = enum_loop crowded_os 1
           (written_into (take 1024 many_ids) (replicate 1024 0) @ replicate 1024 0)"
    by simp
  from inst crowded_full crowded_fourth b
  obtain res where "enumerateProcessIds crowded_os = Some (Inr res)"
    and "length res = 5000" and "take (length many_ids) res = take 5000 many_ids"
    unfolding c by blast
  then have "enumerateProcessIds crowded_os = Some (Inr many_ids)"
    by (simp add: length_many_ids)
  with crowded_first a grow crowded_full crowded_fourth b length_many_ids
  show ?thesis by simp
qed

section \<open>Fatal enumeration errors\<close>

lemma digit_not_newline: "d < 10 \<Longrightarrow> digit d \<noteq> CHR 0x0A"
proof -
  assume "d < 10"
  then have "d = 0 \<or> d = 1 \<or> d = 2 \<or> d = 3 \<or> d = 4 \<or> d = 5 \<or> d = 6 \<or> d = 7 \<or> d = 8 \<or> d = 9"
    by arith
  then show ?thesis by (auto simp: digit_def)
qed

lemma to_string_no_newline: "CHR 0x0A \<notin> set (to_string n)"
proof (induction n rule: to_string.induct)
  case (1 n)
  show ?case
  proof (cases "n < 10")
    case True
    then show ?thesis
      using digit_not_newline [of n] by (subst to_string.simps) auto
  next
    case False
    then show ?thesis
      using "1.IH" digit_not_newline [of "n mod 10"] by (subst to_string.simps) auto
  qed
qed

lemma collectProcesses_throws:
  "enumerateProcessIds os = Some (Inl ex) \<Longrightarrow> collectProcesses os = Some (Inl ex)"
  by (simp add: collectProcesses_def)

lemma runSniffer_Win32Error:
  "collectProcesses os = Some (Inl (Thrown_Win32Error ex)) \<Longrightarrow>
   runSniffer impl fixed2 os n =
     Some \<lparr>exit_status = EXIT_FAILURE, std_wcout = [],
           std_cerr = ''Win32 error: '' @ what ex @ ''\<newline>'', collected = []\<rparr>"
  by (simp add: runSniffer_def)

text \<open>
  C4. When the enumeration primitive fails (after any number of calls that reported a full
  buffer), \<open>enumerateProcessIds\<close> throws a \<open>Win32Error\<close> that stores the error code of the
  failed call and whose message is the context string followed by that code;
  \<open>collectProcesses\<close> lets the same exception through; \<open>runSniffer\<close> catches it, writes
  one line to \<open>std::cerr\<close> (the text before the final newline contains no newline),
  writes nothing to \<open>std::wcout\<close> and returns \<open>EXIT_FAILURE\<close>.
\<close>

theorem enumeration_failure_is_fatal:
  assumes "full_calls os k"
      and "EnumProcesses os k (word_of_nat (PID_VECT_SIZE * 2 ^ k * sizeof_DWORD)) = EnumFailed err"
  shows "enumerateProcessIds os
           = Some (Inl (Thrown_Win32Error (Win32Error_ctor ''EnumProcesses failed.'' err)))
       \<and> code (Win32Error_ctor ''EnumProcesses failed.'' err) = err
       \<and> what (Win32Error_ctor ''EnumProcesses failed.'' err)
           = ''EnumProcesses failed.(error '' @ to_string (unat err) @ '')''
       \<and> collectProcesses os
           = Some (Inl (Thrown_Win32Error (Win32Error_ctor ''EnumProcesses failed.'' err)))
       \<and> runSniffer impl fixed2 os n
           = Some \<lparr>exit_status = EXIT_FAILURE, std_wcout = [],
                   std_cerr = ''Win32 error: EnumProcesses failed.(error ''
                              @ to_string (unat err) @ '')'' @ ''\<newline>'',
                   collected = []\<rparr>
       \<and> CHR 0x0A \<notin> set (''Win32 error: EnumProcesses failed.(error ''
                              @ to_string (unat err) @ '')'')
       \<and> EXIT_FAILURE \<noteq> EXIT_SUCCESS"
proof -
  let ?ex = "Win32Error_ctor ''EnumProcesses failed.'' err"
  have e: "enumerateProcessIds os = Some (Inl (Thrown_Win32Error ?ex))"
    using assms by (rule enumerateProcessIds_fails_after_full_calls)
  then have c: "collectProcesses os = Some (Inl (Thrown_Win32Error ?ex))"
    by (rule collectProcesses_throws)
  have w: "what ?ex = ''EnumProcesses failed.(error '' @ to_string (unat err) @ '')''"
    by (simp add: Win32Error_ctor_def)
  have r: "runSniffer impl fixed2 os n
           = Some \<lparr>exit_status = EXIT_FAILURE, std_wcout = [],
                   std_cerr = ''Win32 error: EnumProcesses failed.(error ''
                              @ to_string (unat err) @ '')'' @ ''\<newline>'',
                   collected = []\<rparr>"
    using runSniffer_Win32Error [OF c, of impl fixed2 n] by (simp add: w)
  have l: "CHR 0x0A \<notin> set (''Win32 error: EnumProcesses failed.(error ''
                              @ to_string (unat err) @ '')'')"
    using to_string_no_newline [of "unat err"] by simp
  have x: "EXIT_FAILURE \<noteq> EXIT_SUCCESS"
    by (simp add: EXIT_FAILURE_def EXIT_SUCCESS_def)
  have cd: "code ?ex = err" by (simp add: code_def Win32Error_ctor_def)
  from e cd w c r l x show ?thesis by (intro conjI)
qed

lemma failing_full: "full_calls failing_os 1"
  by (simp add: failing_os_def PID_VECT_SIZE_def sizeof_DWORD_def)

lemma failing_second:
  "EnumProcesses failing_os 1 (word_of_nat (PID_VECT_SIZE * 2 ^ 1 * sizeof_DWORD)) = EnumFailed 5"
  by (simp add: failing_os_def)

theorem enumeration_failure_is_fatal_witness:
  "full_calls failing_os 1
   \<and> EnumProcesses failing_os 1 (word_of_nat (PID_VECT_SIZE * 2 ^ 1 * sizeof_DWORD)) = EnumFailed 5
   \<and> collectProcesses failing_os
       = Some (Inl (Thrown_Win32Error \<lparr>what = ''EnumProcesses failed.(error 5)'', code_v = 5\<rparr>))
   \<and> runSniffer insertion_sort whole_MiB failing_os 10
       = Some \<lparr>exit_status = 1, std_wcout = [],
               std_cerr = ''Win32 error: EnumProcesses failed.(error 5)\<newline>'',
               collected = []\<rparr>"
  using enumeration_failure_is_fatal [OF failing_full failing_second, of insertion_sort whole_MiB 10]
    failing_full failing_second
  by (simp add: Win32Error_ctor_def EXIT_FAILURE_def digit_def to_string.simps)

section \<open>Inspection and name resolution\<close>

lemma collect_loop_map_filter:
  "collect_loop os pids result
     = result @ List.map_filter (\<lambda>p. fst (queryProcess os p)) pids"
  by (induction pids arbitrary: result) (auto split: option.splits)

lemma length_map_filter_le: "length (List.map_filter f xs) \<le> length xs"
  by (simp add: List.map_filter_def)

lemma queryProcess_zero: "queryProcess os 0 = (None, [])"
  by (simp add: queryProcess_def)

lemma ProcessHandle_open_fails:
  "OpenProcess os (or PROCESS_QUERY_INFORMATION PROCESS_VM_READ) False p = nullptr \<Longrightarrow>
   ProcessHandle_open os p log
     = (None, log @ [Call_OpenProcess (or PROCESS_QUERY_INFORMATION PROCESS_VM_READ) False p])"
  by (simp add: ProcessHandle_open_def Let_def)

lemma ProcessHandle_open_succeeds:
  "OpenProcess os (or PROCESS_QUERY_INFORMATION PROCESS_VM_READ) False p \<noteq> nullptr \<Longrightarrow>
   ProcessHandle_open os p log
     = (Some \<lparr>handle_v = OpenProcess os (or PROCESS_QUERY_INFORMATION PROCESS_VM_READ) False p\<rparr>,
        log @ [Call_OpenProcess (or PROCESS_QUERY_INFORMATION PROCESS_VM_READ) False p])"
  by (simp add: ProcessHandle_open_def Let_def ProcessHandle_ctor_def move_ctor_def
        destructor_def close_def)

lemma queryProcess_open_fails:
  "p \<noteq> 0 \<Longrightarrow>
   OpenProcess os (or PROCESS_QUERY_INFORMATION PROCESS_VM_READ) False p = nullptr \<Longrightarrow>
   queryProcess os p
     = (None, [Call_OpenProcess (or PROCESS_QUERY_INFORMATION PROCESS_VM_READ) False p])"
  by (simp add: queryProcess_def ProcessHandle_open_fails optional_destructor_def)

lemma queryProcess_meminfo_fails:
  "p \<noteq> 0 \<Longrightarrow>
   OpenProcess os (or PROCESS_QUERY_INFORMATION PROCESS_VM_READ) False p = h \<Longrightarrow>
   h \<noteq> nullptr \<Longrightarrow> GetProcessMemoryInfo os h = None \<Longrightarrow>
   queryProcess os p
     = (None, [Call_OpenProcess (or PROCESS_QUERY_INFORMATION PROCESS_VM_READ) False p,
               Call_GetProcessMemoryInfo h, Call_CloseHandle h])"
  by (simp add: queryProcess_def ProcessHandle_open_succeeds optional_destructor_def
        destructor_def close_def get_def)

lemma queryProcess_succeeds:
  "p \<noteq> 0 \<Longrightarrow>
   OpenProcess os (or PROCESS_QUERY_INFORMATION PROCESS_VM_READ) False p = h \<Longrightarrow>
   h \<noteq> nullptr \<Longrightarrow> GetProcessMemoryInfo os h = Some pmc \<Longrightarrow>
   queryProcess os p
     = (Some \<lparr>pid = p, name = fst (tryGetProcessName os h []),
              workingSetBytes = WorkingSetSize pmc, privateBytes = PrivateUsage pmc\<rparr>,
        [Call_OpenProcess (or PROCESS_QUERY_INFORMATION PROCESS_VM_READ) False p,
         Call_GetProcessMemoryInfo h]
        @ snd (tryGetProcessName os h []) @ [Call_CloseHandle h])"
  by (simp add: queryProcess_def ProcessHandle_open_succeeds optional_destructor_def
        destructor_def close_def get_def tryGetProcessName_def Let_def split: option.splits)

lemma example_ids: "enumerateProcessIds example_os = Some (Inr [0, 100, 200])"
  by (rule EnumProcesses_of_list) (simp_all add: example_os_def)

lemma example_collect: "collectProcesses example_os = Some (Inr [app_exe])"
  by (simp add: collectProcesses_def example_ids collect_loop_map_filter)
     (simp add: queryProcess_def ProcessHandle_open_def example_os_def Let_def nullptr_def
        ProcessHandle_ctor_def move_ctor_def get_def tryGetProcessName_def L_def app_exe_def)

text \<open>
  C5. \<open>collectProcesses\<close> is the filter-map of \<open>queryProcess\<close> over the IDs of one call of
  \<open>enumerateProcessIds\<close>: an ID contributes its record when \<open>queryProcess\<close> returns one and
  nothing otherwise, in enumeration order, so the result is never longer than the ID list.
  With the IDs 0, 100 and 200, where 0 is rejected, 100 cannot be opened and 200 yields
  \<open>app.exe\<close> with 52428800 and 20971520 bytes, the pass returns that one record.
\<close>

theorem collectProcesses_is_filter_map:
  "collectProcesses os
     = (case enumerateProcessIds os of
          None \<Rightarrow> None
        | Some (Inl ex) \<Rightarrow> Some (Inl ex)
        | Some (Inr pids) \<Rightarrow> Some (Inr (List.map_filter (\<lambda>p. fst (queryProcess os p)) pids)))
   \<and> List.map_filter (\<lambda>p. fst (queryProcess os p)) [] = []
   \<and> List.map_filter (\<lambda>p. fst (queryProcess os p)) (p # pids)
       = (case fst (queryProcess os p) of
            Some info \<Rightarrow> info # List.map_filter (\<lambda>p. fst (queryProcess os p)) pids
          | None \<Rightarrow> List.map_filter (\<lambda>p. fst (queryProcess os p)) pids)
   \<and> length (List.map_filter (\<lambda>p. fst (queryProcess os p)) pids) \<le> length pids
   \<and> enumerateProcessIds example_os = Some (Inr [0, 100, 200])
   \<and> fst (queryProcess example_os 0) = None
   \<and> fst (queryProcess example_os 100) = None
   \<and> fst (queryProcess example_os 200)
       = Some \<lparr>pid = 200, name = L ''app.exe'',
               workingSetBytes = 52428800, privateBytes = 20971520\<rparr>
   \<and> collectProcesses example_os
       = Some (Inr [\<lparr>pid = 200, name = L ''app.exe'',
                     workingSetBytes = 52428800, privateBytes = 20971520\<rparr>])"
proof (intro conjI)
  show "collectProcesses os
     = (case enumerateProcessIds os of
          None \<Rightarrow> None
        | Some (Inl ex) \<Rightarrow> Some (Inl ex)
        | Some (Inr pids) \<Rightarrow> Some (Inr (List.map_filter (\<lambda>p. fst (queryProcess os p)) pids)))"
    by (simp add: collectProcesses_def collect_loop_map_filter split: option.splits sum.splits)
  show "List.map_filter (\<lambda>p. fst (queryProcess os p)) [] = []"
    by simp
  show "List.map_filter (\<lambda>p. fst (queryProcess os p)) (p # pids)
       = (case fst (queryProcess os p) of
            Some info \<Rightarrow> info # List.map_filter (\<lambda>p. fst (queryProcess os p)) pids
          | None \<Rightarrow> List.map_filter (\<lambda>p. fst (queryProcess os p)) pids)"
    by (simp split: option.splits)
  show "length (List.map_filter (\<lambda>p. fst (queryProcess os p)) pids) \<le> length pids"
    by (rule length_map_filter_le)
  show "enumerateProcessIds example_os = Some (Inr [0, 100, 200])"
    by (rule example_ids)
  show "fst (queryProcess example_os 0) = None"
    by (simp add: queryProcess_zero)
  show "fst (queryProcess example_os 100) = None"
    by (simp add: queryProcess_open_fails example_os_def)
  show "fst (queryProcess example_os 200)
       = Some \<lparr>pid = 200, name = L ''app.exe'',
               workingSetBytes = 52428800, privateBytes = 20971520\<rparr>"
    using queryProcess_succeeds [of 200 example_os 452
        "\<lparr>WorkingSetSize = 52428800, PrivateUsage = 20971520\<rparr>"]
    by (simp add: example_os_def nullptr_def tryGetProcessName_def L_def)
  show "collectProcesses example_os
       = Some (Inr [\<lparr>pid = 200, name = L ''app.exe'',
                     workingSetBytes = 52428800, privateBytes = 20971520\<rparr>])"
    using example_collect by (simp add: app_exe_def)
qed

text \<open>
  C6. \<open>queryProcess\<close> returns \<open>std::nullopt\<close> for ID 0, making no call at all, and for an
  ID whose \<open>OpenProcess\<close> call returns \<open>nullptr\<close>; in the latter case that call is the
  only one made: no \<open>GetProcessMemoryInfo\<close> call (for any handle \<open>h\<close>) is in the log.
\<close>

theorem queryProcess_unavailable_without_query:
  "queryProcess os 0 = (None, [])
   \<and> (p \<noteq> 0
        \<and> OpenProcess os (or PROCESS_QUERY_INFORMATION PROCESS_VM_READ) False p = nullptr
      \<longrightarrow> queryProcess os p
            = (None, [Call_OpenProcess (or PROCESS_QUERY_INFORMATION PROCESS_VM_READ) False p])
          \<and> Call_GetProcessMemoryInfo h \<notin> set (snd (queryProcess os p)))"
  using queryProcess_open_fails [of p os]
  by (simp add: queryProcess_zero)

theorem queryProcess_unavailable_without_query_witness:
  "(100::dword) \<noteq> 0
   \<and> OpenProcess example_os (or PROCESS_QUERY_INFORMATION PROCESS_VM_READ) False 100 = nullptr
   \<and> queryProcess example_os 100 = (None, [Call_OpenProcess 0x410 False 100])
   \<and> queryProcess example_os 0 = (None, [])"
  using queryProcess_unavailable_without_query [of example_os 100 452]
  by (simp add: example_os_def PROCESS_QUERY_INFORMATION_def PROCESS_VM_READ_def)

lemma tryGetProcessName_short:
  "GetModuleBaseNameW os h MAX_PATH \<noteq> [] \<Longrightarrow>
   tryGetProcessName os h log
     = (GetModuleBaseNameW os h MAX_PATH, log @ [Call_GetModuleBaseNameW h])"
  by (simp add: tryGetProcessName_def Let_def)

lemma tryGetProcessName_path:
  "GetModuleBaseNameW os h MAX_PATH = [] \<Longrightarrow>
   QueryFullProcessImageNameW os h MAX_PATH = Some path \<Longrightarrow>
   tryGetProcessName os h log
     = (path, log @ [Call_GetModuleBaseNameW h, Call_QueryFullProcessImageNameW h])"
  by (simp add: tryGetProcessName_def Let_def)

lemma tryGetProcessName_unknown:
  "GetModuleBaseNameW os h MAX_PATH = [] \<Longrightarrow>
   QueryFullProcessImageNameW os h MAX_PATH = None \<Longrightarrow>
   tryGetProcessName os h log
     = (L ''<unknown>'', log @ [Call_GetModuleBaseNameW h, Call_QueryFullProcessImageNameW h])"
  by (simp add: tryGetProcessName_def Let_def)

lemma tryGetProcessName_empty_iff:
  "fst (tryGetProcessName os h log) = []
   \<longleftrightarrow> GetModuleBaseNameW os h MAX_PATH = []
       \<and> QueryFullProcessImageNameW os h MAX_PATH = Some []"
  by (auto simp: tryGetProcessName_def Let_def L_def split: option.splits)

lemma tryGetProcessName_unknown_only:
  "fst (tryGetProcessName os h log) = L ''<unknown>'' \<Longrightarrow>
   GetModuleBaseNameW os h MAX_PATH \<noteq> L ''<unknown>'' \<Longrightarrow>
   QueryFullProcessImageNameW os h MAX_PATH \<noteq> Some (L ''<unknown>'') \<Longrightarrow>
   GetModuleBaseNameW os h MAX_PATH = [] \<and> QueryFullProcessImageNameW os h MAX_PATH = None"
  by (auto simp: tryGetProcessName_def Let_def split: option.splits if_splits)

text \<open>
  C7, as stated, fails: when the base-name call fails and the path call succeeds with an
  empty path, the name returned is empty, and the record with the empty name is collected.
\<close>

theorem tryGetProcessName_empty_name_counterexample:
  "GetModuleBaseNameW empty_path_os 452 MAX_PATH = []
   \<and> QueryFullProcessImageNameW empty_path_os 452 MAX_PATH = Some []
   \<and> fst (tryGetProcessName empty_path_os 452 []) = []
   \<and> fst (queryProcess empty_path_os 200)
       = Some \<lparr>pid = 200, name = [], workingSetBytes = 52428800, privateBytes = 20971520\<rparr>
   \<and> collectProcesses empty_path_os
       = Some (Inr [\<lparr>pid = 200, name = [],
                     workingSetBytes = 52428800, privateBytes = 20971520\<rparr>])"
proof -
  have ids: "enumerateProcessIds empty_path_os = Some (Inr [0, 100, 200])"
    by (rule EnumProcesses_of_list) (simp_all add: empty_path_os_def example_os_def)
  have b: "GetModuleBaseNameW empty_path_os 452 MAX_PATH = []"
    and q: "QueryFullProcessImageNameW empty_path_os 452 MAX_PATH = Some []"
    by (simp_all add: empty_path_os_def example_os_def)
  have n: "fst (tryGetProcessName empty_path_os 452 []) = []"
    using tryGetProcessName_path [OF b q] by simp
  have z: "fst (queryProcess empty_path_os 0) = None"
    by (simp add: queryProcess_zero)
  have h: "fst (queryProcess empty_path_os 100) = None"
    by (simp add: queryProcess_open_fails empty_path_os_def example_os_def)
  have r: "fst (queryProcess empty_path_os 200)
       = Some \<lparr>pid = 200, name = [], workingSetBytes = 52428800, privateBytes = 20971520\<rparr>"
    using queryProcess_succeeds [of 200 empty_path_os 452
        "\<lparr>WorkingSetSize = 52428800, PrivateUsage = 20971520\<rparr>"]
    by (simp add: n) (simp add: empty_path_os_def example_os_def nullptr_def)
  have c: "collectProcesses empty_path_os
       = Some (Inr [\<lparr>pid = 200, name = [],
                     workingSetBytes = 52428800, privateBytes = 20971520\<rparr>])"
    by (simp add: collectProcesses_def ids collect_loop_map_filter z h r)
  from b q n r c show ?thesis by (intro conjI)
qed

text \<open>
  C7, amended. \<open>tryGetProcessName\<close> returns the module base name when that call succeeds
  (and then does not ask for the path), otherwise the full image path when that call
  succeeds, and the placeholder \<open><unknown>\<close> when both fail; it returns the placeholder only
  when both fail (or the system itself reports that very text). The name returned is empty
  exactly when the base-name call fails and the path call succeeds with an empty path.
  \<open>queryProcess\<close> returns a record whenever the process opens and its counters can be
  read, whatever the name lookup does.
\<close>

theorem tryGetProcessName_two_tier_fallback:
  "(GetModuleBaseNameW os h MAX_PATH \<noteq> []
      \<longrightarrow> tryGetProcessName os h log
            = (GetModuleBaseNameW os h MAX_PATH, log @ [Call_GetModuleBaseNameW h]))
   \<and> (GetModuleBaseNameW os h MAX_PATH = []
        \<and> QueryFullProcessImageNameW os h MAX_PATH = Some path
      \<longrightarrow> tryGetProcessName os h log
            = (path, log @ [Call_GetModuleBaseNameW h, Call_QueryFullProcessImageNameW h]))
   \<and> (GetModuleBaseNameW os h MAX_PATH = []
        \<and> QueryFullProcessImageNameW os h MAX_PATH = None
      \<longrightarrow> tryGetProcessName os h log
            = (L ''<unknown>'',
               log @ [Call_GetModuleBaseNameW h, Call_QueryFullProcessImageNameW h]))
   \<and> (fst (tryGetProcessName os h log) = L ''<unknown>''
        \<and> GetModuleBaseNameW os h MAX_PATH \<noteq> L ''<unknown>''
        \<and> QueryFullProcessImageNameW os h MAX_PATH \<noteq> Some (L ''<unknown>'')
      \<longrightarrow> GetModuleBaseNameW os h MAX_PATH = []
          \<and> QueryFullProcessImageNameW os h MAX_PATH = None)
   \<and> (fst (tryGetProcessName os h log) = []
      \<longleftrightarrow> GetModuleBaseNameW os h MAX_PATH = []
          \<and> QueryFullProcessImageNameW os h MAX_PATH = Some [])
   \<and> (p \<noteq> 0
        \<and> OpenProcess os (or PROCESS_QUERY_INFORMATION PROCESS_VM_READ) False p = h
        \<and> h \<noteq> nullptr
        \<and> GetProcessMemoryInfo os h = Some pmc
      \<longrightarrow> fst (queryProcess os p)
            = Some \<lparr>pid = p, name = fst (tryGetProcessName os h []),
                    workingSetBytes = WorkingSetSize pmc, privateBytes = PrivateUsage pmc\<rparr>)"
proof (intro conjI impI; (elim conjE)?)
  assume "GetModuleBaseNameW os h MAX_PATH \<noteq> []"
  then show "tryGetProcessName os h log
      = (GetModuleBaseNameW os h MAX_PATH, log @ [Call_GetModuleBaseNameW h])"
    by (rule tryGetProcessName_short)
next
  assume "GetModuleBaseNameW os h MAX_PATH = []"
    and "QueryFullProcessImageNameW os h MAX_PATH = Some path"
  then show "tryGetProcessName os h log
      = (path, log @ [Call_GetModuleBaseNameW h, Call_QueryFullProcessImageNameW h])"
    by (rule tryGetProcessName_path)
next
  assume "GetModuleBaseNameW os h MAX_PATH = []"
    and "QueryFullProcessImageNameW os h MAX_PATH = None"
  then show "tryGetProcessName os h log
      = (L ''<unknown>'', log @ [Call_GetModuleBaseNameW h, Call_QueryFullProcessImageNameW h])"
    by (rule tryGetProcessName_unknown)
next
  assume a: "fst (tryGetProcessName os h log) = L ''<unknown>''"
    "GetModuleBaseNameW os h MAX_PATH \<noteq> L ''<unknown>''"
    "QueryFullProcessImageNameW os h MAX_PATH \<noteq> Some (L ''<unknown>'')"
  from tryGetProcessName_unknown_only [OF a]
  show "GetModuleBaseNameW os h MAX_PATH = []"
    and "QueryFullProcessImageNameW os h MAX_PATH = None"
    by simp_all
next
  show "fst (tryGetProcessName os h log) = []
      \<longleftrightarrow> GetModuleBaseNameW os h MAX_PATH = []
          \<and> QueryFullProcessImageNameW os h MAX_PATH = Some []"
    by (rule tryGetProcessName_empty_iff)
next
  assume "p \<noteq> 0"
    and "OpenProcess os (or PROCESS_QUERY_INFORMATION PROCESS_VM_READ) False p = h"
    and "h \<noteq> nullptr" and "GetProcessMemoryInfo os h = Some pmc"
  then show "fst (queryProcess os p)
      = Some \<lparr>pid = p, name = fst (tryGetProcessName os h []),
              workingSetBytes = WorkingSetSize pmc, privateBytes = PrivateUsage pmc\<rparr>"
    by (simp add: queryProcess_succeeds)
qed

theorem tryGetProcessName_two_tier_fallback_witness:
  "fst (tryGetProcessName example_os 452 []) = L ''app.exe''
   \<and> GetModuleBaseNameW path_only_os 452 MAX_PATH = []
   \<and> fst (tryGetProcessName path_only_os 452 []) = L ''D:/tools/app.exe''
   \<and> GetModuleBaseNameW nameless_os 452 MAX_PATH = []
   \<and> QueryFullProcessImageNameW nameless_os 452 MAX_PATH = None
   \<and> fst (tryGetProcessName nameless_os 452 []) = L ''<unknown>''
   \<and> fst (queryProcess nameless_os 200)
       = Some \<lparr>pid = 200, name = L ''<unknown>'',
               workingSetBytes = 52428800, privateBytes = 20971520\<rparr>"
  using tryGetProcessName_two_tier_fallback
          [of example_os 452 "[]" "[]" 200
              "\<lparr>WorkingSetSize = 52428800, PrivateUsage = 20971520\<rparr>"]
        tryGetProcessName_two_tier_fallback
          [of path_only_os 452 "[]" "L ''D:/tools/app.exe''" 200
              "\<lparr>WorkingSetSize = 52428800, PrivateUsage = 20971520\<rparr>"]
        tryGetProcessName_two_tier_fallback
          [of nameless_os 452 "[]" "[]" 200
              "\<lparr>WorkingSetSize = 52428800, PrivateUsage = 20971520\<rparr>"]
  by (simp add: example_os_def path_only_os_def nameless_os_def nullptr_def L_def)

section \<open>Handle lifetime\<close>

lemma released_append: "released (xs @ ys) = released xs @ released ys"
  by (induction xs rule: released.induct) simp_all

lemma acquired_append: "acquired os (xs @ ys) = acquired os xs @ acquired os ys"
  by (induction os xs rule: acquired.induct) simp_all

lemma released_tryGetProcessName: "released (snd (tryGetProcessName os h [])) = []"
  by (simp add: tryGetProcessName_def Let_def split: option.splits)

lemma acquired_tryGetProcessName: "acquired os (snd (tryGetProcessName os h [])) = []"
  by (simp add: tryGetProcessName_def Let_def split: option.splits)

lemma queryProcess_balanced:
  "released (snd (queryProcess os p)) = acquired os (snd (queryProcess os p))
   \<and> length (released (snd (queryProcess os p))) \<le> 1"
proof (cases "p = 0")
  case True
  then show ?thesis by (simp add: queryProcess_zero)
next
  case nz: False
  let ?h = "OpenProcess os (or PROCESS_QUERY_INFORMATION PROCESS_VM_READ) False p"
  show ?thesis
  proof (cases "?h = nullptr")
    case True
    then show ?thesis using nz by (simp add: queryProcess_open_fails)
  next
    case opened: False
    show ?thesis
    proof (cases "GetProcessMemoryInfo os ?h")
      case None
      from queryProcess_meminfo_fails [OF nz refl opened None] opened
      show ?thesis by simp
    next
      case (Some pmc)
      from queryProcess_succeeds [OF nz refl opened Some] opened
      show ?thesis
        by (simp add: released_append acquired_append released_tryGetProcessName
              acquired_tryGetProcessName)
    qed
  qed
qed

lemma close_held:
  "handle_v this \<noteq> nullptr \<Longrightarrow>
   close this log = (this\<lparr>handle_v := nullptr\<rparr>, log @ [Call_CloseHandle (handle_v this)])"
  by (simp add: close_def)

lemma close_empty: "handle_v this = nullptr \<Longrightarrow> close this log = (this, log)"
  by (simp add: close_def)

lemma move_assign_distinct:
  "this \<noteq> other \<Longrightarrow>
   move_assign this other st log
     = (st(this := (st this)\<lparr>handle_v := handle_v (st other)\<rparr>,
           other := (st other)\<lparr>handle_v := nullptr\<rparr>),
        snd (close (st this) log))"
  by (auto simp: move_assign_def Let_def close_def fun_upd_twist split: prod.splits)

text \<open>
  C9. In every run of \<open>queryProcess\<close> the handles released are exactly the handles
  acquired, each once and at most one in all; when the process was opened the release is
  the last call, on the early return after a failed counter query as on the normal return.
  The move constructor transfers the handle and leaves the source empty, so destroying
  the source releases nothing; the destructor releases a held handle, after which a
  further \<open>close\<close> does nothing, and does nothing for an empty wrapper; move assignment
  between distinct objects first releases the handle of the target; self-assignment
  changes nothing.
\<close>

theorem ProcessHandle_released_exactly_once:
  "released (snd (queryProcess os p)) = acquired os (snd (queryProcess os p))
   \<and> length (released (snd (queryProcess os p))) \<le> 1
   \<and> (p \<noteq> 0
        \<and> OpenProcess os (or PROCESS_QUERY_INFORMATION PROCESS_VM_READ) False p = h
        \<and> h \<noteq> nullptr \<and> GetProcessMemoryInfo os h = None
      \<longrightarrow> snd (queryProcess os p)
            = [Call_OpenProcess (or PROCESS_QUERY_INFORMATION PROCESS_VM_READ) False p,
               Call_GetProcessMemoryInfo h, Call_CloseHandle h])
   \<and> (p \<noteq> 0
        \<and> OpenProcess os (or PROCESS_QUERY_INFORMATION PROCESS_VM_READ) False p = h
        \<and> h \<noteq> nullptr \<and> GetProcessMemoryInfo os h = Some pmc
      \<longrightarrow> snd (queryProcess os p)
            = [Call_OpenProcess (or PROCESS_QUERY_INFORMATION PROCESS_VM_READ) False p,
               Call_GetProcessMemoryInfo h]
              @ snd (tryGetProcessName os h []) @ [Call_CloseHandle h]
          \<and> released (snd (tryGetProcessName os h [])) = [])
   \<and> move_ctor other = (\<lparr>handle_v = handle_v other\<rparr>, other\<lparr>handle_v := nullptr\<rparr>)
   \<and> destructor (snd (move_ctor other)) log = log
   \<and> (handle_v this \<noteq> nullptr
      \<longrightarrow> destructor this log = log @ [Call_CloseHandle (handle_v this)]
          \<and> close (fst (close this log)) log' = (fst (close this log), log'))
   \<and> (handle_v this = nullptr \<longrightarrow> destructor this log = log)
   \<and> (a \<noteq> b
      \<longrightarrow> move_assign a b st log
            = (st(a := (st a)\<lparr>handle_v := handle_v (st b)\<rparr>,
                  b := (st b)\<lparr>handle_v := nullptr\<rparr>),
               destructor (st a) log))
   \<and> move_assign a a st log = (st, log)"
proof (intro conjI impI; (elim conjE)?)
  show "released (snd (queryProcess os p)) = acquired os (snd (queryProcess os p))"
    and "length (released (snd (queryProcess os p))) \<le> 1"
    using queryProcess_balanced [of os p] by blast+
next
  assume "p \<noteq> 0"
    and "OpenProcess os (or PROCESS_QUERY_INFORMATION PROCESS_VM_READ) False p = h"
    and "h \<noteq> nullptr" and "GetProcessMemoryInfo os h = None"
  then show "snd (queryProcess os p)
            = [Call_OpenProcess (or PROCESS_QUERY_INFORMATION PROCESS_VM_READ) False p,
               Call_GetProcessMemoryInfo h, Call_CloseHandle h]"
    by (simp add: queryProcess_meminfo_fails)
next
  assume "p \<noteq> 0"
    and "OpenProcess os (or PROCESS_QUERY_INFORMATION PROCESS_VM_READ) False p = h"
    and "h \<noteq> nullptr" and "GetProcessMemoryInfo os h = Some pmc"
  then show "snd (queryProcess os p)
            = [Call_OpenProcess (or PROCESS_QUERY_INFORMATION PROCESS_VM_READ) False p,
               Call_GetProcessMemoryInfo h]
              @ snd (tryGetProcessName os h []) @ [Call_CloseHandle h]"
    by (simp add: queryProcess_succeeds)
next
  show "released (snd (tryGetProcessName os h [])) = []"
    by (rule released_tryGetProcessName)
next
  show "move_ctor other = (\<lparr>handle_v = handle_v other\<rparr>, other\<lparr>handle_v := nullptr\<rparr>)"
    by (simp add: move_ctor_def)
next
  show "destructor (snd (move_ctor other)) log = log"
    by (simp add: move_ctor_def destructor_def close_def)
next
  assume "handle_v this \<noteq> nullptr"
  then show "destructor this log = log @ [Call_CloseHandle (handle_v this)]"
    and "close (fst (close this log)) log' = (fst (close this log), log')"
    by (simp_all add: destructor_def close_def)
next
  assume "handle_v this = nullptr"
  then show "destructor this log = log"
    by (simp add: destructor_def close_def)
next
  assume "a \<noteq> b"
  then show "move_assign a b st log
            = (st(a := (st a)\<lparr>handle_v := handle_v (st b)\<rparr>,
                  b := (st b)\<lparr>handle_v := nullptr\<rparr>),
               destructor (st a) log)"
    by (simp add: move_assign_distinct destructor_def)
next
  show "move_assign a a st log = (st, log)"
    by (simp add: move_assign_def)
qed

theorem ProcessHandle_released_exactly_once_witness:
  "snd (queryProcess example_os 200)
     = [Call_OpenProcess 0x410 False 200, Call_GetProcessMemoryInfo 452,
        Call_GetModuleBaseNameW 452, Call_CloseHandle 452]
   \<and> snd (queryProcess no_counters_os 200)
     = [Call_OpenProcess 0x410 False 200, Call_GetProcessMemoryInfo 452, Call_CloseHandle 452]
   \<and> released (snd (queryProcess example_os 100)) = []
   \<and> acquired example_os (snd (queryProcess example_os 200)) = [452]
   \<and> destructor \<lparr>handle_v = 452\<rparr> [] = [Call_CloseHandle 452]
   \<and> destructor \<lparr>handle_v = nullptr\<rparr> [] = []
   \<and> snd (move_assign 1 2 (\<lambda>a. if a = 1 then \<lparr>handle_v = 448\<rparr> else \<lparr>handle_v = 452\<rparr>) [])
       = [Call_CloseHandle 448]
   \<and> handle_v (fst (move_assign 1 2
          (\<lambda>a. if a = 1 then \<lparr>handle_v = 448\<rparr> else \<lparr>handle_v = 452\<rparr>) []) 1) = 452
   \<and> handle_v (fst (move_assign 1 2
          (\<lambda>a. if a = 1 then \<lparr>handle_v = 448\<rparr> else \<lparr>handle_v = 452\<rparr>) []) 2) = nullptr"
proof -
  let ?pmc = "\<lparr>WorkingSetSize = 52428800, PrivateUsage = 20971520\<rparr>"
  let ?st = "\<lambda>a::nat. if a = 1 then \<lparr>handle_v = 448\<rparr> else \<lparr>handle_v = 452\<rparr>"
  have a: "snd (queryProcess example_os 200)
     = [Call_OpenProcess 0x410 False 200, Call_GetProcessMemoryInfo 452,
        Call_GetModuleBaseNameW 452, Call_CloseHandle 452]"
    using ProcessHandle_released_exactly_once
            [of example_os 200 452 ?pmc "\<lparr>handle_v = 452\<rparr>" "[]" "\<lparr>handle_v = 452\<rparr>" "[]" 1 2 ?st]
    by (simp add: example_os_def nullptr_def PROCESS_QUERY_INFORMATION_def PROCESS_VM_READ_def
          tryGetProcessName_def L_def)
  have b: "snd (queryProcess no_counters_os 200)
     = [Call_OpenProcess 0x410 False 200, Call_GetProcessMemoryInfo 452, Call_CloseHandle 452]"
    using ProcessHandle_released_exactly_once
            [of no_counters_os 200 452 ?pmc "\<lparr>handle_v = 452\<rparr>" "[]" "\<lparr>handle_v = 452\<rparr>" "[]" 1 2 ?st]
    by (simp add: no_counters_os_def example_os_def nullptr_def
          PROCESS_QUERY_INFORMATION_def PROCESS_VM_READ_def)
  have c: "released (snd (queryProcess example_os 100)) = []"
    by (simp add: queryProcess_open_fails example_os_def)
  have d: "acquired example_os (snd (queryProcess example_os 200)) = [452]"
    unfolding a by (simp add: example_os_def nullptr_def)
  have e: "destructor \<lparr>handle_v = 452\<rparr> [] = [Call_CloseHandle 452]"
    using ProcessHandle_released_exactly_once
            [of example_os 200 452 ?pmc "\<lparr>handle_v = 452\<rparr>" "[]" "\<lparr>handle_v = 452\<rparr>" "[]" 1 2 ?st]
    by (simp add: nullptr_def)
  have f: "destructor \<lparr>handle_v = nullptr\<rparr> [] = []"
    using ProcessHandle_released_exactly_once
            [of example_os 200 452 ?pmc "\<lparr>handle_v = 452\<rparr>" "[]" "\<lparr>handle_v = nullptr\<rparr>" "[]" 1 2 ?st]
    by simp
  have g: "move_assign 1 2 ?st []
       = (?st(1 := (?st 1)\<lparr>handle_v := handle_v (?st 2)\<rparr>,
              2 := (?st 2)\<lparr>handle_v := nullptr\<rparr>),
          destructor (?st 1) [])"
    using ProcessHandle_released_exactly_once
            [of example_os 200 452 ?pmc "\<lparr>handle_v = 452\<rparr>" "[]" "\<lparr>handle_v = 452\<rparr>" "[]" 1 2 ?st]
    by simp
  have g1: "snd (move_assign 1 2 ?st []) = [Call_CloseHandle 448]"
    unfolding g by (simp add: destructor_def close_def nullptr_def)
  have g2: "handle_v (fst (move_assign 1 2 ?st []) 1) = 452"
    unfolding g by simp
  have g3: "handle_v (fst (move_assign 1 2 ?st []) 2) = nullptr"
    unfolding g by simp
  from a b c d e f g1 g2 g3 show ?thesis by (intro conjI)
qed

section \<open>The top count and the report\<close>

lemma length_to_string_pos: "Suc 0 \<le> length (to_string n)"
  by (subst to_string.simps) simp

lemma length_to_string_mono: "m \<le> n \<Longrightarrow> length (to_string m) \<le> length (to_string n)"
proof (induction n arbitrary: m rule: to_string.induct)
  case (1 n)
  show ?case
  proof (cases "n < 10")
    case True
    with "1.prems" have "m < 10" by simp
    with True show ?thesis
      by (subst to_string.simps, subst (2) to_string.simps) simp
  next
    case False
    show ?thesis
    proof (cases "m < 10")
      case True
      have "length (to_string m) = 1" using True by (subst to_string.simps) simp
      then show ?thesis using length_to_string_pos [of n] by simp
    next
      case mge: False
      have "m div 10 \<le> n div 10" using "1.prems" by (rule div_le_mono)
      from "1.IH" [OF False this] mge False show ?thesis
        by (subst to_string.simps, subst (2) to_string.simps) simp
    qed
  qed
qed

lemma length_banner_mono: "m \<le> n \<Longrightarrow> length (banner m) \<le> length (banner n)"
  by (simp add: banner_def length_L length_to_string_mono)

lemma length_printRow_pos: "0 < length (printRow fixed2 p)"
  by (simp add: printRow_def length_L)

lemma length_rows_strict:
  assumes "j < k" and "k \<le> length xs"
  shows "length (concat (map (printRow fixed2) (take j xs)))
         < length (concat (map (printRow fixed2) (take k xs)))"
proof -
  have "take k xs = take j xs @ drop j (take k xs)"
    using assms by (metis append_take_drop_id less_imp_le_nat min.absorb1 take_take)
  moreover have "drop j (take k xs) \<noteq> []" using assms by simp
  then obtain y ys where "drop j (take k xs) = y # ys" by (cases "drop j (take k xs)") auto
  ultimately have "take k xs = take j xs @ y # ys" by simp
  then have "length (concat (map (printRow fixed2) (take k xs)))
      = length (concat (map (printRow fixed2) (take j xs))) + length (printRow fixed2 y)
        + length (concat (map (printRow fixed2) ys))"
    by simp
  then show ?thesis using length_printRow_pos [of fixed2 y] by simp
qed

lemma report_length_strict:
  assumes "procs \<noteq> []" and "min m (length procs) < min n (length procs)"
  shows "length (wcout (printTopByWorkingSet impl fixed2 procs m out))
         < length (wcout (printTopByWorkingSet impl fixed2 procs n out))"
proof -
  let ?s = "std_sort impl byWorkingSetDesc procs"
  have "length (concat (map (printRow fixed2) (take (min m (length procs)) ?s)))
        < length (concat (map (printRow fixed2) (take (min n (length procs)) ?s)))"
    using assms(2) by (intro length_rows_strict) (simp_all add: length_std_sort)
  moreover have "length (banner (min m (length procs))) \<le> length (banner (min n (length procs)))"
    using assms(2) by (intro length_banner_mono) simp
  ultimately show ?thesis
    by (simp add: wcout_printTopByWorkingSet [OF assms(1)])
qed

lemma report_eq_iff:
  assumes "procs \<noteq> []"
  shows "wcout (printTopByWorkingSet impl fixed2 procs m out)
           = wcout (printTopByWorkingSet impl fixed2 procs n out)
         \<longleftrightarrow> min m (length procs) = min n (length procs)"
proof
  assume eq: "wcout (printTopByWorkingSet impl fixed2 procs m out)
           = wcout (printTopByWorkingSet impl fixed2 procs n out)"
  show "min m (length procs) = min n (length procs)"
  proof (rule ccontr)
    assume "min m (length procs) \<noteq> min n (length procs)"
    then consider "min m (length procs) < min n (length procs)"
      | "min n (length procs) < min m (length procs)"
      by (meson nat_neq_iff)
    then show False
    proof cases
      case 1
      from report_length_strict [OF assms this, of impl fixed2 out] eq show False by simp
    next
      case 2
      from report_length_strict [OF assms this, of impl fixed2 out] eq show False by simp
    qed
  qed
next
  assume "min m (length procs) = min n (length procs)"
  then show "wcout (printTopByWorkingSet impl fixed2 procs m out)
           = wcout (printTopByWorkingSet impl fixed2 procs n out)"
    by (simp add: wcout_printTopByWorkingSet [OF assms])
qed

lemma report_empty:
  "wcout (printTopByWorkingSet impl fixed2 [] n out) = out @ L ''No processes available.\<newline>''"
  by (simp add: printTopByWorkingSet_def put_def)

lemma runSniffer_reports:
  "collectProcesses os = Some (Inr procs) \<Longrightarrow>
   runSniffer impl fixed2 os n
     = Some \<lparr>exit_status = EXIT_SUCCESS,
             std_wcout = wcout (printTopByWorkingSet impl fixed2 procs n []),
             std_cerr = [], collected = procs\<rparr>"
  by (simp add: runSniffer_def Let_def processes_printTopByWorkingSet)

lemma two_process_ids: "enumerateProcessIds two_process_os = Some (Inr [100, 200])"
  by (rule EnumProcesses_of_list) (simp_all add: two_process_os_def)

lemma two_process_collect: "collectProcesses two_process_os = Some (Inr [small_exe, app_exe])"
proof -
  have "fst (queryProcess two_process_os 100) = Some small_exe"
    using queryProcess_succeeds [of 100 two_process_os 448
        "\<lparr>WorkingSetSize = 10485760, PrivateUsage = 4194304\<rparr>"]
    by (simp add: two_process_os_def nullptr_def tryGetProcessName_def L_def small_exe_def)
  moreover have "fst (queryProcess two_process_os 200) = Some app_exe"
    using queryProcess_succeeds [of 200 two_process_os 452
        "\<lparr>WorkingSetSize = 52428800, PrivateUsage = 20971520\<rparr>"]
    by (simp add: two_process_os_def nullptr_def tryGetProcessName_def L_def app_exe_def)
  ultimately show ?thesis
    by (simp add: collectProcesses_def two_process_ids collect_loop_map_filter)
qed

lemma sorted_by_pair:
  assumes "workingSetBytes a < workingSetBytes b"
      and "sorted_by byWorkingSetDesc [a, b] ys"
  shows "ys = [b, a]"
proof -
  from assms(2) have m: "mset ys = {#a, b#}"
    and srt: "sorted_wrt (\<lambda>x y. workingSetBytes y \<le> workingSetBytes x) ys"
    by (simp_all add: sorted_by_def not_byWorkingSetDesc)
  from m have "size (mset ys) = 2" by simp
  then have "length ys = 2" by simp
  then obtain x y where ys: "ys = [x, y]"
    by (metis (no_types) length_0_conv length_Suc_conv numeral_2_eq_2)
  with m have "{#x, y#} = {#a, b#}" by simp
  then have "(x = a \<and> y = b) \<or> (x = b \<and> y = a)"
    by (auto simp: add_eq_conv_ex)
  with srt ys assms(1) show ?thesis by auto
qed

lemma two_process_sorted:
  "std_sort impl byWorkingSetDesc [small_exe, app_exe] = [app_exe, small_exe]"
proof (cases "sorted_by byWorkingSetDesc [small_exe, app_exe] (impl byWorkingSetDesc [small_exe, app_exe])")
  case True
  have "workingSetBytes small_exe < workingSetBytes app_exe"
    by (simp add: small_exe_def app_exe_def)
  from sorted_by_pair [OF this True] True show ?thesis by (simp add: std_sort_def)
next
  case False
  then show ?thesis
    by (simp add: std_sort_def insertion_sort_def byWorkingSetDesc_def small_exe_def app_exe_def)
qed

text \<open>
  C2, as stated, fails: with two collected records, \<open>runSniffer\<close> called with 1 prints one
  row and called with 2 prints two rows.
\<close>

theorem runSniffer_ignores_topN_counterexample:
  "collectProcesses two_process_os = Some (Inr [small_exe, app_exe])
   \<and> map_option std_wcout (runSniffer insertion_sort whole_MiB two_process_os 1)
       = Some (banner 1 @ header @ printRow whole_MiB app_exe)
   \<and> map_option std_wcout (runSniffer insertion_sort whole_MiB two_process_os 2)
       = Some (banner 2 @ header @ printRow whole_MiB app_exe @ printRow whole_MiB small_exe)
   \<and> map_option std_wcout (runSniffer insertion_sort whole_MiB two_process_os 1)
       \<noteq> map_option std_wcout (runSniffer insertion_sort whole_MiB two_process_os 2)"
proof -
  have ne: "[small_exe, app_exe] \<noteq> []" by simp
  have m1: "min 1 (length [small_exe, app_exe]) = 1"
    and m2: "min 2 (length [small_exe, app_exe]) = 2"
    by simp_all
  have t1: "take 1 [app_exe, small_exe] = [app_exe]"
    and t2: "take 2 [app_exe, small_exe] = [app_exe, small_exe]"
    by simp_all
  have w1: "wcout (printTopByWorkingSet insertion_sort whole_MiB [small_exe, app_exe] 1 [])
        = banner 1 @ header @ printRow whole_MiB app_exe"
    unfolding wcout_printTopByWorkingSet [OF ne] two_process_sorted m1 t1 by simp
  have w2: "wcout (printTopByWorkingSet insertion_sort whole_MiB [small_exe, app_exe] 2 [])
        = banner 2 @ header @ printRow whole_MiB app_exe @ printRow whole_MiB small_exe"
    unfolding wcout_printTopByWorkingSet [OF ne] two_process_sorted m2 t2 by simp
  have one: "map_option std_wcout (runSniffer insertion_sort whole_MiB two_process_os 1)
       = Some (banner 1 @ header @ printRow whole_MiB app_exe)"
    unfolding runSniffer_reports [OF two_process_collect] w1 by simp
  have two: "map_option std_wcout (runSniffer insertion_sort whole_MiB two_process_os 2)
       = Some (banner 2 @ header @ printRow whole_MiB app_exe @ printRow whole_MiB small_exe)"
    unfolding runSniffer_reports [OF two_process_collect] w2 by simp
  have "wcout (printTopByWorkingSet insertion_sort whole_MiB [small_exe, app_exe] 1 [])
        \<noteq> wcout (printTopByWorkingSet insertion_sort whole_MiB [small_exe, app_exe] 2 [])"
    unfolding report_eq_iff [OF ne] by simp
  then have "map_option std_wcout (runSniffer insertion_sort whole_MiB two_process_os 1)
       \<noteq> map_option std_wcout (runSniffer insertion_sort whole_MiB two_process_os 2)"
    unfolding runSniffer_reports [OF two_process_collect] by simp
  with two_process_collect one two show ?thesis by (intro conjI)
qed

text \<open>
  C2, amended. \<open>runSniffer\<close> passes its argument on to \<open>printTopByWorkingSet\<close>: the report
  is the one printed for that argument, and two arguments give the same run exactly when
  they clamp to the same number of rows. \<open>wmain\<close> passes 10.
\<close>

theorem runSniffer_passes_topN_through:
  assumes "collectProcesses os = Some (Inr procs)"
  shows "runSniffer impl fixed2 os n
           = Some \<lparr>exit_status = EXIT_SUCCESS,
                   std_wcout = wcout (printTopByWorkingSet impl fixed2 procs n []),
                   std_cerr = [], collected = procs\<rparr>
       \<and> (runSniffer impl fixed2 os m = runSniffer impl fixed2 os n
            \<longleftrightarrow> min m (length procs) = min n (length procs))
       \<and> wmain impl fixed2 os = runSniffer impl fixed2 os 10"
proof (intro conjI)
  show "runSniffer impl fixed2 os n
           = Some \<lparr>exit_status = EXIT_SUCCESS,
                   std_wcout = wcout (printTopByWorkingSet impl fixed2 procs n []),
                   std_cerr = [], collected = procs\<rparr>"
    using assms by (rule runSniffer_reports)
  show "runSniffer impl fixed2 os m = runSniffer impl fixed2 os n
            \<longleftrightarrow> min m (length procs) = min n (length procs)"
  proof (cases "procs = []")
    case True
    then show ?thesis by (simp add: runSniffer_reports [OF assms] report_empty)
  next
    case False
    then show ?thesis by (simp add: runSniffer_reports [OF assms] report_eq_iff)
  qed
  show "wmain impl fixed2 os = runSniffer impl fixed2 os 10"
    by (simp add: wmain_def)
qed

theorem runSniffer_passes_topN_through_witness:
  "collectProcesses two_process_os = Some (Inr [small_exe, app_exe])
   \<and> runSniffer insertion_sort whole_MiB two_process_os 2 = runSniffer insertion_sort whole_MiB two_process_os 15
   \<and> runSniffer insertion_sort whole_MiB two_process_os 1 \<noteq> runSniffer insertion_sort whole_MiB two_process_os 15
   \<and> wmain insertion_sort whole_MiB two_process_os = runSniffer insertion_sort whole_MiB two_process_os 10"
proof -
  note same = runSniffer_passes_topN_through
    [OF two_process_collect, THEN conjunct2, THEN conjunct1]
  have a: "runSniffer insertion_sort whole_MiB two_process_os 2 = runSniffer insertion_sort whole_MiB two_process_os 15"
    unfolding same by simp
  have b: "runSniffer insertion_sort whole_MiB two_process_os 1 \<noteq> runSniffer insertion_sort whole_MiB two_process_os 15"
    unfolding same by simp
  have c: "wmain insertion_sort whole_MiB two_process_os = runSniffer insertion_sort whole_MiB two_process_os 10"
    by (rule runSniffer_passes_topN_through
          [OF two_process_collect, THEN conjunct2, THEN conjunct2])
  from two_process_collect a b c show ?thesis by (intro conjI)
qed

lemma hd_std_sort_max:
  assumes "procs \<noteq> []" and "q \<in> set procs"
  shows "workingSetBytes q \<le> workingSetBytes (hd (std_sort impl byWorkingSetDesc procs))"
proof -
  let ?s = "std_sort impl byWorkingSetDesc procs"
  have ne: "?s \<noteq> []" using assms(1) length_std_sort [of impl byWorkingSetDesc procs] by auto
  then obtain x xs where s: "?s = x # xs" by (cases ?s) auto
  have "q \<in> set ?s" using assms(2) mset_std_sort [of impl byWorkingSetDesc procs]
    by (metis set_mset_mset)
  moreover have "sorted_wrt (\<lambda>a b. workingSetBytes b \<le> workingSetBytes a) (x # xs)"
    using sorted_std_sort [of impl procs] s by simp
  ultimately show ?thesis using s by auto
qed

lemma tie_insertion:
  "std_sort insertion_sort byWorkingSetDesc [small_exe, twin_exe] = [small_exe, twin_exe]"
  by (simp add: std_sort_def sorted_by_def insertion_sort_def byWorkingSetDesc_def
        small_exe_def twin_exe_def)

lemma tie_reversing:
  "std_sort reversing_sort byWorkingSetDesc [small_exe, twin_exe] = [twin_exe, small_exe]"
  by (simp add: std_sort_def sorted_by_def reversing_sort_def insertion_sort_def
        byWorkingSetDesc_def small_exe_def twin_exe_def)

lemma sorted_v_printTopByWorkingSet:
  "procs \<noteq> [] \<Longrightarrow>
   sorted_v (printTopByWorkingSet impl fixed2 procs n out) = std_sort impl byWorkingSetDesc procs"
  by (simp add: printTopByWorkingSet_def Let_def print_rows_eq put_def length_std_sort)

lemma replicate_numeral: "replicate (numeral v) x = x # replicate (numeral v - 1) x"
  by (simp add: numeral_eq_Suc)

lemma row_literals:
  "printRow whole_MiB app_exe
     = L ''200     app.exe                       50.00           20.00           \<newline>''"
  "printRow whole_MiB small_exe
     = L ''100     small.exe                     10.00           4.00            \<newline>''"
  "printRow whole_MiB twin_exe
     = L ''300     twin.exe                      10.00           1.00            \<newline>''"
  by (simp_all add: printRow_def setw_left_def displayName_def MAX_NAME_LEN_def whole_MiB_def
        L_def to_string.simps digit_def app_exe_def small_exe_def twin_exe_def
        replicate_numeral)

lemma header_literal:
  "header = L ''PID     Process                       WorkingSet (MB) Private (MB)    \<newline>''"
  by (simp add: header_def setw_left_def L_def replicate_numeral)

lemma banner_literals:
  "banner 1 = L ''Top 1 processes by working set (physical ram):\<newline>\<newline>''"
  "banner 2 = L ''Top 2 processes by working set (physical ram):\<newline>\<newline>''"
  by (simp_all add: banner_def L_def to_string.simps digit_def)

text \<open>
  C8. For a non-empty collection the report is the banner with the clamped count
  \<open>min n (length procs)\<close>, the header, and one row for each of the first
  \<open>min n (length procs)\<close> elements of the sorted copy; a row shows the ID, the display
  name and the two sizes of its record, each padded to its column. The sorted copy is what
  the sort library leaves: a permutation of the collection in descending order of working
  set, whatever the library does with equal working sets. A count of 1 prints the one row
  of a record with the largest working set; a count of at least the size prints all
  records. An empty collection prints a one-line notice and no rows.
\<close>

theorem printTopByWorkingSet_sorted_and_clamped:
  assumes "procs \<noteq> []"
  shows "mset (std_sort impl byWorkingSetDesc procs) = mset procs
       \<and> sorted_wrt (\<lambda>a b. workingSetBytes a \<ge> workingSetBytes b)
           (std_sort impl byWorkingSetDesc procs)
       \<and> sorted_v (printTopByWorkingSet impl fixed2 procs n out)
           = std_sort impl byWorkingSetDesc procs
       \<and> wcout (printTopByWorkingSet impl fixed2 procs n out)
           = out
             @ L ''Top '' @ L (to_string (min n (length procs)))
             @ L '' processes by working set (physical ram):\<newline>\<newline>''
             @ header
             @ concat (map
                 (\<lambda>p. setw_left 8 (L (to_string (unat (pid p))))
                      @ setw_left 30 (displayName (name p))
                      @ setw_left 16 (fixed2 (workingSetBytes p))
                      @ setw_left 16 (fixed2 (privateBytes p))
                      @ L ''\<newline>'')
                 (take (min n (length procs)) (std_sort impl byWorkingSetDesc procs)))
       \<and> length (take (min n (length procs)) (std_sort impl byWorkingSetDesc procs))
           = min n (length procs)
       \<and> wcout (printTopByWorkingSet impl fixed2 procs 1 out)
           = out @ banner 1 @ header
             @ printRow fixed2 (hd (std_sort impl byWorkingSetDesc procs))
       \<and> (\<forall>q \<in> set procs.
             workingSetBytes q \<le> workingSetBytes (hd (std_sort impl byWorkingSetDesc procs)))
       \<and> wcout (printTopByWorkingSet impl fixed2 procs (length procs + extra) out)
           = out @ banner (length procs) @ header
             @ concat (map (printRow fixed2) (std_sort impl byWorkingSetDesc procs))
       \<and> wcout (printTopByWorkingSet impl fixed2 [] n out)
           = out @ L ''No processes available.\<newline>''"
proof (intro conjI)
  let ?s = "std_sort impl byWorkingSetDesc procs"
  show "mset ?s = mset procs" by (rule mset_std_sort)
  show "sorted_wrt (\<lambda>a b. workingSetBytes a \<ge> workingSetBytes b) ?s"
    by (rule sorted_std_sort)
  show "sorted_v (printTopByWorkingSet impl fixed2 procs n out) = ?s"
    using assms by (rule sorted_v_printTopByWorkingSet)
  have row: "printRow fixed2
      = (\<lambda>p. setw_left 8 (L (to_string (unat (pid p))))
              @ setw_left 30 (displayName (name p))
              @ setw_left 16 (fixed2 (workingSetBytes p))
              @ setw_left 16 (fixed2 (privateBytes p))
              @ L ''\<newline>'')"
    by (simp add: printRow_def fun_eq_iff)
  show "wcout (printTopByWorkingSet impl fixed2 procs n out)
           = out
             @ L ''Top '' @ L (to_string (min n (length procs)))
             @ L '' processes by working set (physical ram):\<newline>\<newline>''
             @ header
             @ concat (map
                 (\<lambda>p. setw_left 8 (L (to_string (unat (pid p))))
                      @ setw_left 30 (displayName (name p))
                      @ setw_left 16 (fixed2 (workingSetBytes p))
                      @ setw_left 16 (fixed2 (privateBytes p))
                      @ L ''\<newline>'')
                 (take (min n (length procs)) ?s))"
    unfolding wcout_printTopByWorkingSet [OF assms] row banner_def by simp
  show "length (take (min n (length procs)) ?s) = min n (length procs)"
    by (simp add: length_std_sort)
  have len: "Suc 0 \<le> length procs" using assms by (cases procs) simp_all
  then have m1: "min 1 (length procs) = 1" by simp
  have "?s \<noteq> []" using assms length_std_sort [of impl byWorkingSetDesc procs] by auto
  then have t1: "take 1 ?s = [hd ?s]" by (cases ?s) simp_all
  show "wcout (printTopByWorkingSet impl fixed2 procs 1 out)
           = out @ banner 1 @ header @ printRow fixed2 (hd ?s)"
    unfolding wcout_printTopByWorkingSet [OF assms] m1 t1 by simp
  show "\<forall>q \<in> set procs. workingSetBytes q \<le> workingSetBytes (hd ?s)"
    using hd_std_sort_max [OF assms] by blast
  show "wcout (printTopByWorkingSet impl fixed2 procs (length procs + extra) out)
           = out @ banner (length procs) @ header @ concat (map (printRow fixed2) ?s)"
    unfolding wcout_printTopByWorkingSet [OF assms] by (simp add: length_std_sort)
  show "wcout (printTopByWorkingSet impl fixed2 [] n out)
           = out @ L ''No processes available.\<newline>''"
    by (rule report_empty)
qed

theorem printTopByWorkingSet_sorted_and_clamped_witness:
  "[small_exe, app_exe] \<noteq> []
   \<and> wcout (printTopByWorkingSet insertion_sort whole_MiB [small_exe, app_exe] 5 [])
       = L ''Top 2 processes by working set (physical ram):\<newline>\<newline>''
         @ L ''PID     Process                       WorkingSet (MB) Private (MB)    \<newline>''
         @ L ''200     app.exe                       50.00           20.00           \<newline>''
         @ L ''100     small.exe                     10.00           4.00            \<newline>''
   \<and> wcout (printTopByWorkingSet insertion_sort whole_MiB [small_exe, app_exe] 1 [])
       = L ''Top 1 processes by working set (physical ram):\<newline>\<newline>''
         @ L ''PID     Process                       WorkingSet (MB) Private (MB)    \<newline>''
         @ L ''200     app.exe                       50.00           20.00           \<newline>''
   \<and> wcout (printTopByWorkingSet insertion_sort whole_MiB [small_exe, twin_exe] 2 [])
       = L ''Top 2 processes by working set (physical ram):\<newline>\<newline>''
         @ L ''PID     Process                       WorkingSet (MB) Private (MB)    \<newline>''
         @ L ''100     small.exe                     10.00           4.00            \<newline>''
         @ L ''300     twin.exe                      10.00           1.00            \<newline>''
   \<and> wcout (printTopByWorkingSet reversing_sort whole_MiB [small_exe, twin_exe] 2 [])
       = L ''Top 2 processes by working set (physical ram):\<newline>\<newline>''
         @ L ''PID     Process                       WorkingSet (MB) Private (MB)    \<newline>''
         @ L ''300     twin.exe                      10.00           1.00            \<newline>''
         @ L ''100     small.exe                     10.00           4.00            \<newline>''"
proof -
  have ne: "[small_exe, app_exe] \<noteq> []" and ne': "[small_exe, twin_exe] \<noteq> []"
    by simp_all
  note all_rows = conjunct2 [THEN conjunct2, THEN conjunct2, THEN conjunct2,
      THEN conjunct2, THEN conjunct2, THEN conjunct2, THEN conjunct1]
  note first_row = conjunct2 [THEN conjunct2, THEN conjunct2, THEN conjunct2,
      THEN conjunct2, THEN conjunct1]
  have five: "wcout (printTopByWorkingSet insertion_sort whole_MiB [small_exe, app_exe] 5 [])
       = L ''Top 2 processes by working set (physical ram):\<newline>\<newline>''
         @ L ''PID     Process                       WorkingSet (MB) Private (MB)    \<newline>''
         @ L ''200     app.exe                       50.00           20.00           \<newline>''
         @ L ''100     small.exe                     10.00           4.00            \<newline>''"
    using printTopByWorkingSet_sorted_and_clamped
            [OF ne, of insertion_sort whole_MiB 5 "[]" 3, THEN all_rows]
    unfolding two_process_sorted
    by (simp add: banner_literals [unfolded numeral_2_eq_2] header_literal row_literals
          numeral_2_eq_2)
  have one: "wcout (printTopByWorkingSet insertion_sort whole_MiB [small_exe, app_exe] 1 [])
       = L ''Top 1 processes by working set (physical ram):\<newline>\<newline>''
         @ L ''PID     Process                       WorkingSet (MB) Private (MB)    \<newline>''
         @ L ''200     app.exe                       50.00           20.00           \<newline>''"
    using printTopByWorkingSet_sorted_and_clamped
            [OF ne, of insertion_sort whole_MiB 5 "[]" 3, THEN first_row]
    unfolding two_process_sorted
    by (simp add: banner_literals [unfolded One_nat_def] header_literal row_literals)
  have tie1: "wcout (printTopByWorkingSet insertion_sort whole_MiB [small_exe, twin_exe] 2 [])
       = L ''Top 2 processes by working set (physical ram):\<newline>\<newline>''
         @ L ''PID     Process                       WorkingSet (MB) Private (MB)    \<newline>''
         @ L ''100     small.exe                     10.00           4.00            \<newline>''
         @ L ''300     twin.exe                      10.00           1.00            \<newline>''"
    using printTopByWorkingSet_sorted_and_clamped
            [OF ne', of insertion_sort whole_MiB 2 "[]" 0, THEN all_rows]
    unfolding tie_insertion
    by (simp add: banner_literals [unfolded numeral_2_eq_2] header_literal row_literals
          numeral_2_eq_2)
  have tie2: "wcout (printTopByWorkingSet reversing_sort whole_MiB [small_exe, twin_exe] 2 [])
       = L ''Top 2 processes by working set (physical ram):\<newline>\<newline>''
         @ L ''PID     Process                       WorkingSet (MB) Private (MB)    \<newline>''
         @ L ''300     twin.exe                      10.00           1.00            \<newline>''
         @ L ''100     small.exe                     10.00           4.00            \<newline>''"
    using printTopByWorkingSet_sorted_and_clamped
            [OF ne', of reversing_sort whole_MiB 2 "[]" 0, THEN all_rows]
    unfolding tie_reversing
    by (simp add: banner_literals [unfolded numeral_2_eq_2] header_literal row_literals
          numeral_2_eq_2)
  from ne five one tie1 tie2 show ?thesis by (intro conjI)
qed

text \<open>
  C10. After \<open>printTopByWorkingSet\<close> the caller's vector holds the records it held before,
  in the same order: only the local copy is sorted. So when \<open>runSniffer\<close> returns, the
  collected records are as \<open>collectProcesses\<close> returned them.
\<close>

theorem printTopByWorkingSet_leaves_records_unchanged:
  "processes (printTopByWorkingSet impl fixed2 procs n out) = procs
   \<and> (collectProcesses os = Some (Inr procs)
      \<longrightarrow> map_option collected (runSniffer impl fixed2 os n) = Some procs)"
  by (simp add: processes_printTopByWorkingSet runSniffer_reports)

theorem printTopByWorkingSet_leaves_records_unchanged_witness:
  "collectProcesses two_process_os = Some (Inr [small_exe, app_exe])
   \<and> sorted_v (printTopByWorkingSet insertion_sort whole_MiB [small_exe, app_exe] 10 []) = [app_exe, small_exe]
   \<and> processes (printTopByWorkingSet insertion_sort whole_MiB [small_exe, app_exe] 10 []) = [small_exe, app_exe]
   \<and> map_option collected (runSniffer insertion_sort whole_MiB two_process_os 10) = Some [small_exe, app_exe]"
proof -
  have s: "sorted_v (printTopByWorkingSet insertion_sort whole_MiB [small_exe, app_exe] 10 [])
           = [app_exe, small_exe]"
    by (simp add: printTopByWorkingSet_def Let_def print_rows_eq put_def length_std_sort
          two_process_sorted)
  from printTopByWorkingSet_leaves_records_unchanged
         [of insertion_sort whole_MiB "[small_exe, app_exe]" 10 "[]" two_process_os]
       two_process_collect s
  show ?thesis by simp
qed

end
